theory Spec2Isabelle
  imports Complex_Main
begin

section \<open>Values of the host language\<close>

text \<open>
  A string is its sequence of UTF-16 code units, which is what the program's string
  operations see. The display names and the secret word are Ethiopic text, so a byte
  string would not do.
\<close>

type_synonym js_string = "nat list"

text \<open>
  What the handlers learn from \<^verbatim>\<open>Number(text)\<close>: either a value for which
  \<^verbatim>\<open>Number.isInteger\<close> holds, or anything else (a fraction, NaN, an infinity).
\<close>

datatype number = Integer int | NonInteger

text \<open>
  An array of numbers that may have holes: a slot that was never written reads as
  \<^verbatim>\<open>undefined\<close>, here \<open>None\<close>. Reading past the end gives \<^verbatim>\<open>undefined\<close>;
  writing past the end extends the array and leaves holes in between.
\<close>

definition array_get :: "'a option list \<Rightarrow> nat \<Rightarrow> 'a option" where
  "array_get xs i = (if i < length xs then xs ! i else None)"

definition array_set :: "'a option list \<Rightarrow> nat \<Rightarrow> 'a \<Rightarrow> 'a option list" where
  "array_set xs i v =
     (if i < length xs then xs[i := Some v]
      else xs @ replicate (i - length xs) None @ [Some v])"

text \<open>\<^verbatim>\<open>xs.filter((item) => item === v).length\<close>; a hole is skipped.\<close>

definition occurrences :: "int option list \<Rightarrow> int \<Rightarrow> nat" where
  "occurrences xs v = length (filter (\<lambda>item. item = Some v) xs)"

text \<open>\<^verbatim>\<open>names.join(sep)\<close>.\<close>

fun join :: "js_string \<Rightarrow> js_string list \<Rightarrow> js_string" where
  "join sep [] = []"
| "join sep [x] = x"
| "join sep (x # y # ys) = x @ sep @ join sep (y # ys)"

text \<open>The decimal digits of a number, as code units.\<close>

fun decimal :: "nat \<Rightarrow> js_string" where
  "decimal n = (if n < 10 then [48 + n] else decimal (n div 10) @ [48 + n mod 10])"

declare decimal.simps [simp del]


section \<open>The session of the chat bot\<close>

datatype Stage =
  idle | askPlayerCount | collectNames | askImposterCount | reveal | voting | result

record PlayerAssignment =
  id' :: nat
  name :: js_string
  isImposter :: bool
  word :: "js_string option"

text \<open>
  The two counts are only ever assigned a validated integer (or the constants 3 and 1),
  and the two cursors start at 0 and are only ever incremented, so all four are naturals.
  The chat bot and the web client hold the same ten fields; they differ in the stages.
\<close>

record 'st session =
  stage :: 'st
  playerCount :: nat
  playerNames :: "js_string list"
  imposterCount :: nat
  assignments :: "PlayerAssignment list"
  selectedWord :: js_string
  currentRevealIndex :: nat
  wordRevealed :: bool
  currentVoterIndex :: nat
  votes :: "int option list"

type_synonym Session = "Stage session"

definition MIN_PLAYERS :: int where "MIN_PLAYERS = 3"
definition MAX_PLAYERS :: int where "MAX_PLAYERS = 12"
definition MIN_IMPOSTERS :: int where "MIN_IMPOSTERS = 1"

text \<open>The label is the four Ethiopic letters of the source followed by a space.\<close>

definition createDefaultName :: "nat \<Rightarrow> js_string" where
  "createDefaultName index = [0x1270, 0x132B, 0x12CB, 0x127D, 0x20] @ decimal (index + 1)"

definition ensureNameList :: "nat \<Rightarrow> js_string list \<Rightarrow> js_string list" where
  "ensureNameList count current =
     (let trimmed = take count current in
      if length trimmed = count then trimmed
      else trimmed @ map createDefaultName [length trimmed..<count])"

definition getMaxImposters :: "int \<Rightarrow> int" where
  "getMaxImposters count = max MIN_IMPOSTERS (max 0 (count - 1))"

definition resetSession :: Session where
  "resetSession =
     \<lparr> stage = askPlayerCount,
       playerCount = nat MIN_PLAYERS,
       playerNames = ensureNameList (nat MIN_PLAYERS) [],
       imposterCount = nat MIN_IMPOSTERS,
       assignments = [],
       selectedWord = [],
       currentRevealIndex = 0,
       wordRevealed = False,
       currentVoterIndex = 0,
       votes = [] \<rparr>"


section \<open>The assignment of roles\<close>

text \<open>
  The random source is the sequence of values that successive calls of
  \<^verbatim>\<open>Math.random()\<close> return, each in the interval from 0 (included) to 1 (excluded).
  One draw is \<^verbatim>\<open>Math.floor(Math.random() * playerCount)\<close>. The product is taken in the
  reals here and in binary64 in the program; the rounding can move a value that lies just
  below an integer up to it, so that the two disagree on which index an isolated value
  yields. Either way the index is below the number of players, and every sequence of
  indices that the program can draw is the sequence of some random source here.
\<close>

definition random_source :: "(nat \<Rightarrow> real) \<Rightarrow> bool" where
  "random_source rnd = (\<forall>i. 0 \<le> rnd i \<and> rnd i < 1)"

definition randomIndex :: "real \<Rightarrow> nat \<Rightarrow> nat" where
  "randomIndex r n = nat \<lfloor>r * real n\<rfloor>"

text \<open>
  \<^verbatim>\<open>while (imposterIndices.size < imposters) imposterIndices.add(...)\<close>, started with the
  empty set at the first draw. The loop has no bound of its own: where it never leaves,
  the value is \<open>None\<close>.
\<close>

partial_function (option) drawImposters ::
  "(nat \<Rightarrow> real) \<Rightarrow> nat \<Rightarrow> int \<Rightarrow> nat set \<Rightarrow> nat \<Rightarrow> nat set option" where
  "drawImposters rnd n imposters imposterIndices i =
     (if int (card imposterIndices) < imposters
      then drawImposters rnd n imposters (insert (randomIndex (rnd i) n) imposterIndices) (Suc i)
      else Some imposterIndices)"

definition buildAssignments ::
  "js_string list \<Rightarrow> nat set \<Rightarrow> js_string \<Rightarrow> PlayerAssignment list" where
  "buildAssignments names imposterIndices w =
     map (\<lambda>(index, nm).
            \<lparr> id' = index, name = nm,
              isImposter = (index \<in> imposterIndices),
              word = (if index \<in> imposterIndices then None else Some w) \<rparr>)
         (enumerate 0 names)"


section \<open>Text messages: the setup dialogue\<close>

text \<open>
  A text message as the handler reads it: either it starts with a slash (a command,
  handled elsewhere), or the handler takes \<^verbatim>\<open>Number(message)\<close> and the non-empty
  trimmed pieces of the message split at commas and line breaks.
\<close>

datatype text_input = Command | Plain number "js_string list"

text \<open>
  What the bot sends back. The texts are Amharic in the source; each constructor stands
  for one of them.
  \<^item> \<open>PlayerCountOutOfRange\<close>: "please enter a number between 3 and 12";
  \<^item> \<open>ImposterCountOutOfRange\<close>: "the number of imposters must be between 1 and the maximum";
  \<^item> \<open>AlreadyRevealed\<close>: "the word has already been shown";
  \<^item> \<open>NotYetRevealed\<close>: the alert "first show the word";
  \<^item> \<open>InvalidTarget\<close>: "choice not allowed";
  \<^item> \<open>NoSelection\<close>: the alert "first choose whom you accuse";
  \<^item> \<open>StageMismatch\<close>: a reveal action outside the reveal stage;
  \<^item> \<open>UseNewGame\<close>: "please start a new game with /newgame";
  \<^item> \<open>Ignored\<close>: the event is acknowledged, or dropped, with no text.
\<close>

datatype reply =
    Welcome | NewGameStarted | HelpShown
  | PlayerCountOutOfRange | AskNames | AskImposterCount | ImposterCountOutOfRange
  | CardsReady | UseNewGame
  | StageMismatch | AlreadyRevealed | WordShown | NotYetRevealed | NextReveal | VotingStarted
  | InvalidTarget | SelectionRecorded | NoSelection | NextVoter | ResultAnnounced
  | Ignored

definition on_text ::
  "(nat \<Rightarrow> real) \<Rightarrow> js_string \<Rightarrow> text_input \<Rightarrow> Session \<Rightarrow> (reply \<times> Session) option" where
  "on_text rnd pickRandomWord message session =
     (case message of
        Command \<Rightarrow> Some (Ignored, session)
      | Plain num rawNames \<Rightarrow>
          if stage session = askPlayerCount then
            (case num of
               NonInteger \<Rightarrow> Some (PlayerCountOutOfRange, session)
             | Integer count \<Rightarrow>
                 if count < MIN_PLAYERS \<or> count > MAX_PLAYERS
                 then Some (PlayerCountOutOfRange, session)
                 else Some (AskNames,
                   session\<lparr> playerCount := nat count,
                            playerNames := ensureNameList (nat count) (playerNames session),
                            stage := collectNames \<rparr>))
          else if stage session = collectNames then
            Some (AskImposterCount,
              session\<lparr> playerNames :=
                         ensureNameList (playerCount session)
                           (if length rawNames > 0 then rawNames else playerNames session),
                       stage := askImposterCount \<rparr>)
          else if stage session = askImposterCount then
            (let maxImposters = getMaxImposters (int (playerCount session)) in
             case num of
               NonInteger \<Rightarrow> Some (ImposterCountOutOfRange, session)
             | Integer imposters \<Rightarrow>
                 if imposters < MIN_IMPOSTERS \<or> imposters > maxImposters
                 then Some (ImposterCountOutOfRange, session)
                 else
                   (case drawImposters rnd (playerCount session) imposters {} 0 of
                      None \<Rightarrow> None
                    | Some imposterIndices \<Rightarrow>
                        Some (CardsReady,
                          session\<lparr> imposterCount := nat imposters,
                                   assignments :=
                                     buildAssignments (playerNames session) imposterIndices
                                       pickRandomWord,
                                   selectedWord := pickRandomWord,
                                   votes := replicate (playerCount session) (Some (- 1)),
                                   currentRevealIndex := 0,
                                   wordRevealed := False,
                                   currentVoterIndex := 0,
                                   stage := reveal \<rparr>)))
          else Some (UseNewGame, session))"


section \<open>Button presses: reveal and vote\<close>

text \<open>
  The data of a button press, as the dispatcher and the two handlers read it: the two
  reveal actions, any other data with the prefix \<^verbatim>\<open>reveal:\<close>, a selection with
  \<^verbatim>\<open>Number(payload)\<close>, the confirmation, any other data with the prefix \<^verbatim>\<open>vote:\<close>,
  and data with neither prefix.
\<close>

datatype callback_data =
  RevealShow | RevealNext | RevealOther | VoteSelect number | VoteConfirm | VoteOther | OtherData

definition handleRevealCallbacks :: "callback_data \<Rightarrow> Session \<Rightarrow> reply \<times> Session" where
  "handleRevealCallbacks dat session =
     (if stage session \<noteq> reveal then (StageMismatch, session)
      else if dat = RevealShow then
        (if wordRevealed session then (AlreadyRevealed, session)
         else (WordShown, session\<lparr> wordRevealed := True \<rparr>))
      else if dat = RevealNext then
        (if \<not> wordRevealed session then (NotYetRevealed, session)
         else
           (let isLast =
                  (int (currentRevealIndex session) = int (length (assignments session)) - 1)
            in if isLast
               then (VotingStarted, session\<lparr> stage := voting, currentVoterIndex := 0 \<rparr>)
               else (NextReveal,
                      session\<lparr> currentRevealIndex := currentRevealIndex session + 1,
                               wordRevealed := False \<rparr>)))
      else (Ignored, session))"

definition handleVotingCallbacks :: "callback_data \<Rightarrow> Session \<Rightarrow> reply \<times> Session" where
  "handleVotingCallbacks dat session =
     (if stage session \<noteq> voting then (Ignored, session)
      else
        (case dat of
           VoteSelect payload \<Rightarrow>
             (case payload of
                NonInteger \<Rightarrow> (InvalidTarget, session)
              | Integer index \<Rightarrow>
                  if index < 0 \<or> index \<ge> int (length (assignments session))
                  then (InvalidTarget, session)
                  else (SelectionRecorded,
                         session\<lparr> votes :=
                                    array_set (votes session) (currentVoterIndex session)
                                      index \<rparr>))
         | VoteConfirm \<Rightarrow>
             if array_get (votes session) (currentVoterIndex session) = Some (- 1)
             then (NoSelection, session)
             else
               (let isLastVoter =
                      (int (currentVoterIndex session) = int (length (assignments session)) - 1)
                in if isLastVoter
                   then (ResultAnnounced, session\<lparr> stage := result \<rparr>)
                   else (NextVoter,
                          session\<lparr> currentVoterIndex := currentVoterIndex session + 1 \<rparr>))
         | _ \<Rightarrow> (Ignored, session)))"

definition on_callback_query :: "callback_data \<Rightarrow> Session \<Rightarrow> reply \<times> Session" where
  "on_callback_query dat session =
     (case dat of
        RevealShow \<Rightarrow> handleRevealCallbacks dat session
      | RevealNext \<Rightarrow> handleRevealCallbacks dat session
      | RevealOther \<Rightarrow> handleRevealCallbacks dat session
      | VoteSelect p \<Rightarrow> handleVotingCallbacks dat session
      | VoteConfirm \<Rightarrow> handleVotingCallbacks dat session
      | VoteOther \<Rightarrow> handleVotingCallbacks dat session
      | OtherData \<Rightarrow> (Ignored, session))"


section \<open>The result\<close>

text \<open>An entry of the summary; its number of votes is the field \<^verbatim>\<open>votes\<close> of the source.\<close>

record VoteEntry =
  player :: PlayerAssignment
  entryVotes :: nat

record ResultSummary =
  highestVote :: nat
  voteSummary :: "VoteEntry list"
  mostVotedNames :: js_string

text \<open>
  \<^verbatim>\<open>votes.reduce(...)\<close> with the initial value 0: the callback is not called on a hole,
  returns the accumulator on \<open>-1\<close>, and otherwise compares it with the number of
  entries equal to this one.
\<close>

definition highestVoteOf :: "int option list \<Rightarrow> nat" where
  "highestVoteOf vs =
     foldl (\<lambda>acc vote.
              case vote of
                None \<Rightarrow> acc
              | Some v \<Rightarrow> if v = - 1 then acc else max acc (occurrences vs v))
           0 vs"

definition getVoteSummary :: "int option list \<Rightarrow> PlayerAssignment list \<Rightarrow> VoteEntry list" where
  "getVoteSummary vs players =
     map (\<lambda>(targetIndex, p). \<lparr> player = p, entryVotes = occurrences vs (int targetIndex) \<rparr>)
         (enumerate 0 players)"

definition mostVoted :: "nat \<Rightarrow> VoteEntry list \<Rightarrow> js_string" where
  "mostVoted highest summary =
     join [0x2C, 0x20]
       (map (\<lambda>entry. name (player entry))
          (filter (\<lambda>entry. entryVotes entry = highest \<and> highest > 0) summary))"

definition computeResultSummary :: "Session \<Rightarrow> ResultSummary" where
  "computeResultSummary session =
     (let highest = highestVoteOf (votes session);
          summary = getVoteSummary (votes session) (assignments session)
      in \<lparr> highestVote = highest,
           voteSummary = summary,
           mostVotedNames = mostVoted highest summary \<rparr>)"


section \<open>Events and runs of the bot\<close>

text \<open>
  One event of one chat. A text message comes with what the environment supplies while it
  is handled: the random source and the word that \<^verbatim>\<open>pickRandomWord()\<close> returns.
  \<open>StartCommand\<close> and \<open>NewGameCommand\<close> replace the session; every other event belongs
  to the game in progress. \<open>HelpCommand\<close> only prints the instructions.
\<close>

datatype event =
    StartCommand
  | NewGameCommand
  | HelpCommand
  | Text "nat \<Rightarrow> real" js_string text_input
  | CallbackQuery callback_data

fun handle :: "event \<Rightarrow> Session \<Rightarrow> (reply \<times> Session) option" where
  "handle StartCommand session = Some (Welcome, resetSession)"
| "handle NewGameCommand session = Some (NewGameStarted, resetSession)"
| "handle HelpCommand session = Some (HelpShown, session)"
| "handle (Text rnd w message) session = on_text rnd w message session"
| "handle (CallbackQuery dat) session = Some (on_callback_query dat session)"

fun in_game :: "event \<Rightarrow> bool" where
  "in_game StartCommand = False"
| "in_game NewGameCommand = False"
| "in_game HelpCommand = True"
| "in_game (Text rnd w message) = True"
| "in_game (CallbackQuery dat) = True"

text \<open>Handling a sequence of events, one after the other; a handler that never returns
  stops the run.\<close>

fun run :: "event list \<Rightarrow> Session \<Rightarrow> Session option" where
  "run [] session = Some session"
| "run (e # es) session =
     (case handle e session of None \<Rightarrow> None | Some (r, session') \<Rightarrow> run es session')"

text \<open>The sessions the bot can be in: the fresh one and whatever an event makes of one.\<close>

inductive reachable :: "Session \<Rightarrow> bool" where
  fresh: "reachable resetSession"
| after: "reachable session \<Longrightarrow> handle e session = Some (r, session') \<Longrightarrow> reachable session'"


section \<open>What holds of every session\<close>

text \<open>The indices drawn by \<open>m\<close> successive draws, from the \<open>i\<close>-th on.\<close>

definition draws :: "(nat \<Rightarrow> real) \<Rightarrow> nat \<Rightarrow> nat \<Rightarrow> nat \<Rightarrow> nat set" where
  "draws rnd n i m = (\<lambda>j. randomIndex (rnd j) n) ` {i..<i + m}"

definition in_setup :: "Session \<Rightarrow> bool" where
  "in_setup s = (stage s = askPlayerCount \<or> stage s = collectNames \<or> stage s = askImposterCount)"

definition in_play :: "Session \<Rightarrow> bool" where
  "in_play s = (stage s = reveal \<or> stage s = voting \<or> stage s = result)"

text \<open>An entry of \<open>votes\<close> is \<open>-1\<close> or the index of a player.\<close>

definition valid_vote :: "nat \<Rightarrow> int option \<Rightarrow> bool" where
  "valid_vote n v = (case v of None \<Rightarrow> False | Some x \<Rightarrow> x = - 1 \<or> (0 \<le> x \<and> x < int n))"

definition setup_ok :: "Session \<Rightarrow> bool" where
  "setup_ok s =
     (3 \<le> playerCount s \<and> playerCount s \<le> 12 \<and> length (playerNames s) = playerCount s \<and>
      (in_setup s \<or> in_play s) \<and>
      (in_setup s \<longrightarrow>
         assignments s = [] \<and> currentRevealIndex s = 0 \<and> currentVoterIndex s = 0))"

definition cursors_ok :: "Session \<Rightarrow> bool" where
  "cursors_ok s =
     (in_play s \<longrightarrow>
        length (assignments s) = playerCount s \<and>
        currentRevealIndex s < playerCount s \<and> currentVoterIndex s < playerCount s \<and>
        (stage s = reveal \<longrightarrow> currentVoterIndex s = 0))"

definition roles_ok :: "Session \<Rightarrow> bool" where
  "roles_ok s =
     (\<forall>a \<in> set (assignments s).
        word a = (if isImposter a then None else Some (selectedWord s)))"

definition votes_ok :: "Session \<Rightarrow> bool" where
  "votes_ok s =
     (in_play s \<longrightarrow>
        length (votes s) = playerCount s \<and>
        (\<forall>v \<in> set (votes s). valid_vote (playerCount s) v) \<and>
        (stage s = voting \<longrightarrow> (\<forall>j < currentVoterIndex s. votes s ! j \<noteq> Some (- 1))) \<and>
        (stage s = result \<longrightarrow> (\<forall>v \<in> set (votes s). v \<noteq> Some (- 1))))"

definition session_ok :: "Session \<Rightarrow> bool" where
  "session_ok s = (setup_ok s \<and> cursors_ok s \<and> roles_ok s \<and> votes_ok s)"


section \<open>The web client\<close>

text \<open>
  The web client keeps the same ten fields as component state, with stages of its own and
  a message shown to the players. Its drawing loop, its assignments and its vote summary
  are the code of the bot, word for word. The counts it handles here are integers: the
  number fields of the client also pass on a fraction, which the two counters then store
  as it is, and such inputs are outside what follows. A
  second copy of the client has no number of imposters: it draws one index, once; it is
  left out.
\<close>

datatype AppStage = setup_app | reveal_app | voting_app | result_app

datatype app_error = NoError | TooFewPlayers | TooManyImposters | NoVoteSelected

record app = "AppStage session" +
  error :: app_error

definition adjustPlayerCount :: "int \<Rightarrow> app \<Rightarrow> app" where
  "adjustPlayerCount count a =
     (let safeCount = max MIN_PLAYERS (min MAX_PLAYERS count)
      in a\<lparr> playerCount := nat safeCount,
            playerNames := ensureNameList (nat safeCount) (playerNames a),
            imposterCount := nat (min (int (imposterCount a)) (getMaxImposters safeCount)) \<rparr>)"

definition adjustImposterCount :: "int \<Rightarrow> app \<Rightarrow> app" where
  "adjustImposterCount count a =
     (let maxImposters = getMaxImposters (int (playerCount a));
          safeCount = max MIN_IMPOSTERS (min maxImposters count)
      in a\<lparr> imposterCount := nat safeCount \<rparr>)"

text \<open>\<^verbatim>\<open>String.prototype.trim\<close> is a parameter: nothing below depends on what it removes.\<close>

definition handleStartGame ::
  "(js_string \<Rightarrow> js_string) \<Rightarrow> (nat \<Rightarrow> real) \<Rightarrow> js_string \<Rightarrow> app \<Rightarrow> app option" where
  "handleStartGame trim rnd pickRandomWord a =
     (let sanitizedNames =
            ensureNameList (playerCount a)
              (map (\<lambda>(index, nm). if length (trim nm) > 0 then trim nm
                                     else createDefaultName index)
                   (enumerate 0 (playerNames a)))
      in if int (length sanitizedNames) < MIN_PLAYERS then Some (a\<lparr> error := TooFewPlayers \<rparr>)
         else
           (let maxImposters = getMaxImposters (int (length sanitizedNames))
            in if int (imposterCount a) > maxImposters
               then Some (a\<lparr> error := TooManyImposters \<rparr>)
               else
                 (case drawImposters rnd (length sanitizedNames) (int (imposterCount a)) {} 0 of
                    None \<Rightarrow> None
                  | Some imposterIndices \<Rightarrow>
                      Some (a\<lparr> error := NoError,
                               playerNames := sanitizedNames,
                               assignments :=
                                 buildAssignments sanitizedNames imposterIndices pickRandomWord,
                               selectedWord := pickRandomWord,
                               votes := replicate (length sanitizedNames) (Some (- 1)),
                               currentVoterIndex := 0,
                               currentRevealIndex := 0,
                               wordRevealed := False,
                               stage := reveal_app \<rparr>))))"

definition handleRevealWord :: "app \<Rightarrow> app" where
  "handleRevealWord a = a\<lparr> wordRevealed := True \<rparr>"

definition handleNextPlayer :: "app \<Rightarrow> app" where
  "handleNextPlayer a =
     (let isLastPlayer = (int (currentRevealIndex a) = int (length (assignments a)) - 1)
      in if isLastPlayer
         then a\<lparr> wordRevealed := False, stage := voting_app, currentVoterIndex := 0 \<rparr>
         else a\<lparr> wordRevealed := False, currentRevealIndex := currentRevealIndex a + 1 \<rparr>)"

text \<open>
  The button that calls \<open>handleNextPlayer\<close> is rendered in the reveal stage, for a
  current player that exists, and only once the word is shown; a press that cannot happen
  changes nothing.
\<close>

definition nextPlayer_rendered :: "app \<Rightarrow> bool" where
  "nextPlayer_rendered a =
     (stage a = reveal_app \<and> currentRevealIndex a < length (assignments a) \<and> wordRevealed a)"

definition press_nextPlayer :: "app \<Rightarrow> app" where
  "press_nextPlayer a = (if nextPlayer_rendered a then handleNextPlayer a else a)"

definition handleSelectVote :: "int \<Rightarrow> app \<Rightarrow> app" where
  "handleSelectVote targetIndex a =
     a\<lparr> error := NoError,
        votes := array_set (votes a) (currentVoterIndex a) targetIndex \<rparr>"

definition handleConfirmVote :: "app \<Rightarrow> app" where
  "handleConfirmVote a =
     (if array_get (votes a) (currentVoterIndex a) = Some (- 1)
      then a\<lparr> error := NoVoteSelected \<rparr>
      else
        (let isLastVoter = (int (currentVoterIndex a) = int (length (assignments a)) - 1)
         in if isLastVoter then a\<lparr> stage := result_app \<rparr>
            else a\<lparr> currentVoterIndex := currentVoterIndex a + 1 \<rparr>))"

text \<open>
  In \<^verbatim>\<open>renderResult\<close>: \<^verbatim>\<open>voteSummary.reduce((max, item) => Math.max(max, item.votes), 0)\<close>
  over the summary that \<open>getVoteSummary\<close> gives.
\<close>

definition renderResult_highestVote :: "VoteEntry list \<Rightarrow> nat" where
  "renderResult_highestVote summary = foldl (\<lambda>mx item. max mx (entryVotes item)) 0 summary"


section \<open>A game of three, for reference\<close>


definition rising_source :: "nat \<Rightarrow> real" where
  "rising_source i = (if i = 0 then 0 else 1 / 2)"

definition example_word :: js_string where
  "example_word = [0x1264, 0x1275]"

text \<open>The messages "3" and "A,B,C", then "1"; three times show and next; the ballots
  1, 1 and 2, each confirmed.\<close>

definition example_dialogue :: "event list" where
  "example_dialogue =
     [Text rising_source example_word (Plain (Integer 3) [[0x33]]),
      Text rising_source example_word (Plain NonInteger [[0x41], [0x42], [0x43]])]"

definition example_deal :: "event list" where
  "example_deal = [Text rising_source example_word (Plain (Integer 1) [[0x31]])]"

definition example_reveals :: "event list" where
  "example_reveals =
     [CallbackQuery RevealShow, CallbackQuery RevealNext,
      CallbackQuery RevealShow, CallbackQuery RevealNext,
      CallbackQuery RevealShow, CallbackQuery RevealNext]"

definition example_ballots :: "event list" where
  "example_ballots =
     [CallbackQuery (VoteSelect (Integer 1)), CallbackQuery VoteConfirm,
      CallbackQuery (VoteSelect (Integer 1)), CallbackQuery VoteConfirm,
      CallbackQuery (VoteSelect (Integer 2)), CallbackQuery VoteConfirm]"

definition example_asking :: Session where
  "example_asking =
     \<lparr> stage = askImposterCount, playerCount = 3,
       playerNames = [[0x41], [0x42], [0x43]],
       imposterCount = 1, assignments = [], selectedWord = [],
       currentRevealIndex = 0, wordRevealed = False, currentVoterIndex = 0, votes = [] \<rparr>"

definition example_players :: "PlayerAssignment list" where
  "example_players =
     [\<lparr> id' = 0, name = [0x41], isImposter = True, word = None \<rparr>,
      \<lparr> id' = 1, name = [0x42], isImposter = False, word = Some example_word \<rparr>,
      \<lparr> id' = 2, name = [0x43], isImposter = False, word = Some example_word \<rparr>]"

definition example_dealt :: Session where
  "example_dealt =
     \<lparr> stage = reveal, playerCount = 3,
       playerNames = [[0x41], [0x42], [0x43]],
       imposterCount = 1, assignments = example_players, selectedWord = example_word,
       currentRevealIndex = 0, wordRevealed = False, currentVoterIndex = 0,
       votes = [Some (- 1), Some (- 1), Some (- 1)] \<rparr>"

definition example_voting :: Session where
  "example_voting =
     example_dealt\<lparr> stage := voting, currentRevealIndex := 2, wordRevealed := True \<rparr>"

definition example_finished :: Session where
  "example_finished =
     example_voting\<lparr> stage := result, currentVoterIndex := 2,
                     votes := [Some 1, Some 1, Some 2] \<rparr>"

text \<open>Two other endings of the same game: the ballots 1, 2 and 0, a tie of all three
  players, and the ballots 1, 1 and 1.\<close>

definition example_ballots_tie :: "event list" where
  "example_ballots_tie =
     [CallbackQuery (VoteSelect (Integer 1)), CallbackQuery VoteConfirm,
      CallbackQuery (VoteSelect (Integer 2)), CallbackQuery VoteConfirm,
      CallbackQuery (VoteSelect (Integer 0)), CallbackQuery VoteConfirm]"

definition example_ballots_all :: "event list" where
  "example_ballots_all =
     [CallbackQuery (VoteSelect (Integer 1)), CallbackQuery VoteConfirm,
      CallbackQuery (VoteSelect (Integer 1)), CallbackQuery VoteConfirm,
      CallbackQuery (VoteSelect (Integer 1)), CallbackQuery VoteConfirm]"

definition example_tied :: Session where
  "example_tied =
     example_voting\<lparr> stage := result, currentVoterIndex := 2,
                     votes := [Some 1, Some 2, Some 0] \<rparr>"

definition example_unanimous :: Session where
  "example_unanimous =
     example_voting\<lparr> stage := result, currentVoterIndex := 2,
                     votes := [Some 1, Some 1, Some 1] \<rparr>"

section \<open>Arrays and names\<close>

lemmas stage_defs = in_setup_def in_play_def
lemmas const_defs = MIN_PLAYERS_def MAX_PLAYERS_def MIN_IMPOSTERS_def
lemmas ok_defs = session_ok_def setup_ok_def cursors_ok_def roles_ok_def votes_ok_def stage_defs

lemma array_set_in_range: "i < length xs \<Longrightarrow> array_set xs i v = xs[i := Some v]"
  by (simp add: array_set_def)

lemma array_get_in_range: "i < length xs \<Longrightarrow> array_get xs i = xs ! i"
  by (simp add: array_get_def)

lemma length_ensureNameList [simp]: "length (ensureNameList count current) = count"
  by (auto simp: ensureNameList_def Let_def)

lemma getMaxImposters_eq: "2 \<le> n \<Longrightarrow> getMaxImposters (int n) = int n - 1"
  by (simp add: getMaxImposters_def const_defs)


section \<open>The drawing loop\<close>

lemma randomIndex_less:
  assumes "0 \<le> r" "r < 1" "0 < n"
  shows "randomIndex r n < n"
proof -
  have "r * real n < real n" using assms by simp
  then have "\<lfloor>r * real n\<rfloor> < int n" by (simp add: floor_less_iff)
  moreover have "0 \<le> \<lfloor>r * real n\<rfloor>" using assms by simp
  ultimately show ?thesis unfolding randomIndex_def by linarith
qed

lemma draws_0 [simp]: "draws rnd n i 0 = {}"
  by (simp add: draws_def)

lemma draws_Suc: "draws rnd n i (Suc m) = insert (randomIndex (rnd i) n) (draws rnd n (Suc i) m)"
proof -
  have "{i..<i + Suc m} = insert i {Suc i..<Suc i + m}" by auto
  then show ?thesis by (simp add: draws_def)
qed

lemma finite_draws [simp]: "finite (draws rnd n i m)"
  by (simp add: draws_def)

lemma draws_bounded:
  assumes "random_source rnd" "0 < n"
  shows "draws rnd n i m \<subseteq> {0..<n}"
  using assms by (auto simp: draws_def random_source_def intro!: randomIndex_less)


text \<open>What the loop returns, when it does: the set it started from and the draws it made,
  of exactly the required size.\<close>

lemma drawImposters_returns:
  assumes ret: "drawImposters rnd n k S i = Some T"
    and "finite S" and "int (card S) \<le> k"
  shows "finite T \<and> int (card T) = k \<and> (\<exists>m. T = S \<union> draws rnd n i m)"
proof -
  let ?P = "\<lambda>rnd n k S i T. finite S \<longrightarrow> int (card S) \<le> k \<longrightarrow>
              finite T \<and> int (card T) = k \<and> (\<exists>m. T = S \<union> draws rnd n i m)"
  have "?P rnd n k S i T"
  proof (rule drawImposters.raw_induct [where P = ?P, OF _ ret])
    fix f rnd n k S i T
    assume IH: "\<And>rnd n k S i T. f rnd n k S i = Some T \<Longrightarrow> ?P rnd n k S i T"
      and body: "(if int (card S) < k then f rnd n k (insert (randomIndex (rnd i) n) S) (Suc i)
                  else Some S) = Some T"
    show "?P rnd n k S i T"
    proof (intro impI)
      assume fin: "finite S" and le: "int (card S) \<le> k"
      show "finite T \<and> int (card T) = k \<and> (\<exists>m. T = S \<union> draws rnd n i m)"
      proof (cases "int (card S) < k")
        case False
        with body le have "T = S" "int (card S) = k" by auto
        moreover have "S = S \<union> draws rnd n i 0" by simp
        ultimately show ?thesis using fin by blast
      next
        case True
        let ?S = "insert (randomIndex (rnd i) n) S"
        from True body have call: "f rnd n k ?S (Suc i) = Some T" by simp
        have "card ?S \<le> Suc (card S)" using fin by (simp add: card_insert_if)
        with True have "int (card ?S) \<le> k" by linarith
        with IH [OF call] fin obtain m where
          T: "finite T" "int (card T) = k" "T = ?S \<union> draws rnd n (Suc i) m" by auto
        have "T = S \<union> draws rnd n i (Suc m)" using T(3) by (simp add: draws_Suc)
        with T show ?thesis by blast
      qed
    qed
  qed
  with assms show ?thesis by blast
qed



section \<open>The assignments built from the drawn indices\<close>

lemma length_buildAssignments [simp]: "length (buildAssignments names T w) = length names"
  by (simp add: buildAssignments_def)

lemma map_isImposter_buildAssignments:
  "map isImposter (buildAssignments names T w) = map (\<lambda>i. i \<in> T) [0..<length names]"
proof -
  have "map isImposter (buildAssignments names T w) = map ((\<lambda>i. i \<in> T) \<circ> fst) (enumerate 0 names)"
    by (simp add: buildAssignments_def case_prod_unfold comp_def)
  also have "\<dots> = map (\<lambda>i. i \<in> T) (map fst (enumerate 0 names))"
    by (simp only: map_map)
  finally show ?thesis by simp
qed

lemma count_imposters_buildAssignments:
  "length (filter isImposter (buildAssignments names T w)) = card (T \<inter> {0..<length names})"
proof -
  have "length (filter isImposter (buildAssignments names T w))
        = length (filter id (map isImposter (buildAssignments names T w)))"
    by (simp add: filter_map comp_def)
  also have "\<dots> = length (filter (\<lambda>i. i \<in> T) [0..<length names])"
    by (simp add: map_isImposter_buildAssignments filter_map comp_def)
  also have "\<dots> = card ({i. i \<in> T} \<inter> set [0..<length names])"
    by (rule distinct_length_filter) simp
  finally show ?thesis by simp
qed

lemma word_buildAssignments:
  "a \<in> set (buildAssignments names T w) \<Longrightarrow> word a = (if isImposter a then None else Some w)"
  by (auto simp: buildAssignments_def)

lemma drawImposters_count:
  assumes "drawImposters rnd (length names) k {} 0 = Some T"
    and "random_source rnd" and "0 < length names" and "0 \<le> k"
  shows "int (length (filter isImposter (buildAssignments names T w))) = k"
proof -
  from drawImposters_returns [OF assms(1)] assms(4)
  obtain m where T: "int (card T) = k" "T = draws rnd (length names) 0 m" by auto
  with draws_bounded [OF assms(2,3)] have "T \<inter> {0..<length names} = T" by blast
  with T show ?thesis by (simp add: count_imposters_buildAssignments)
qed


section \<open>The ways each handler can go\<close>

lemma on_text_cases:
  assumes "on_text rnd w msg s = Some (r, s')"
  obtains (same) "s' = s"
    | (count) c toks where "stage s = askPlayerCount" "msg = Plain (Integer c) toks"
        "3 \<le> c" "c \<le> 12"
        "s' = s\<lparr> playerCount := nat c,
                  playerNames := ensureNameList (nat c) (playerNames s),
                  stage := collectNames \<rparr>"
    | (names) num rawNames where "stage s = collectNames" "msg = Plain num rawNames"
        "s' = s\<lparr> playerNames :=
                    ensureNameList (playerCount s)
                      (if length rawNames > 0 then rawNames else playerNames s),
                  stage := askImposterCount \<rparr>"
    | (assign) k toks T where "stage s = askImposterCount" "msg = Plain (Integer k) toks"
        "1 \<le> k" "k \<le> getMaxImposters (int (playerCount s))"
        "drawImposters rnd (playerCount s) k {} 0 = Some T"
        "r = CardsReady"
        "s' = s\<lparr> imposterCount := nat k,
                  assignments := buildAssignments (playerNames s) T w,
                  selectedWord := w,
                  votes := replicate (playerCount s) (Some (- 1)),
                  currentRevealIndex := 0, wordRevealed := False,
                  currentVoterIndex := 0, stage := reveal \<rparr>"
proof (cases msg)
  case Command
  with assms show ?thesis by (intro same) (simp add: on_text_def)
next
  case (Plain num rawNames)
  show ?thesis
  proof (cases "stage s = askPlayerCount")
    case True
    show ?thesis
    proof (cases "\<exists>c. num = Integer c \<and> \<not> (c < MIN_PLAYERS \<or> c > MAX_PLAYERS)")
      case False
      with assms Plain True show ?thesis
        by (intro same) (auto simp: on_text_def split: number.splits)
    next
      case ex: True
      then obtain c where c: "num = Integer c" "3 \<le> c" "c \<le> 12" by (auto simp: const_defs)
      with assms Plain True show ?thesis
        by (intro count [of c rawNames]) (auto simp: on_text_def const_defs)
    qed
  next
    case npc: False
    show ?thesis
    proof (cases "stage s = collectNames")
      case True
      with assms Plain show ?thesis
        by (intro names [of num rawNames]) (auto simp: on_text_def)
    next
      case nnm: False
      show ?thesis
      proof (cases "stage s = askImposterCount")
        case False
        with assms Plain npc nnm show ?thesis by (intro same) (simp add: on_text_def)
      next
        case True
        show ?thesis
        proof (cases "\<exists>k. num = Integer k \<and>
                        \<not> (k < MIN_IMPOSTERS \<or> k > getMaxImposters (int (playerCount s)))")
          case False
          with assms Plain True show ?thesis
            by (intro same) (auto simp: on_text_def Let_def split: number.splits)
        next
          case ex: True
          then obtain k where k: "num = Integer k" "1 \<le> k"
            "k \<le> getMaxImposters (int (playerCount s))"
            by (auto simp: const_defs)
          with assms Plain True obtain T where
            "drawImposters rnd (playerCount s) k {} 0 = Some T"
            by (auto simp: on_text_def Let_def const_defs split: option.splits)
          with assms Plain True k show ?thesis
            by (intro assign [of k rawNames T]) (auto simp: on_text_def Let_def const_defs)
        qed
      qed
    qed
  qed
qed

lemma reveal_cases:
  assumes "stage s = reveal"
  obtains (same) "handleRevealCallbacks dat s = (AlreadyRevealed, s) \<or>
                  handleRevealCallbacks dat s = (NotYetRevealed, s) \<or>
                  handleRevealCallbacks dat s = (Ignored, s)"
    | (shown) "dat = RevealShow" "\<not> wordRevealed s"
        "handleRevealCallbacks dat s = (WordShown, s\<lparr> wordRevealed := True \<rparr>)"
    | (vote) "dat = RevealNext" "wordRevealed s"
        "int (currentRevealIndex s) = int (length (assignments s)) - 1"
        "handleRevealCallbacks dat s = (VotingStarted, s\<lparr> stage := voting, currentVoterIndex := 0 \<rparr>)"
    | (nxt) "dat = RevealNext" "wordRevealed s"
        "int (currentRevealIndex s) \<noteq> int (length (assignments s)) - 1"
        "handleRevealCallbacks dat s =
           (NextReveal, s\<lparr> currentRevealIndex := currentRevealIndex s + 1, wordRevealed := False \<rparr>)"
proof (cases "dat = RevealShow")
  case sh: True
  show ?thesis
  proof (cases "wordRevealed s")
    case True
    with sh assms show ?thesis by (intro same) (simp add: handleRevealCallbacks_def)
  next
    case False
    with sh assms show ?thesis by (intro shown) (simp_all add: handleRevealCallbacks_def)
  qed
next
  case ns: False
  show ?thesis
  proof (cases "dat = RevealNext")
    case False
    with ns assms show ?thesis by (intro same) (simp add: handleRevealCallbacks_def)
  next
    case nx: True
    show ?thesis
    proof (cases "wordRevealed s")
      case False
      with nx assms show ?thesis by (intro same) (simp add: handleRevealCallbacks_def)
    next
      case wr: True
      show ?thesis
      proof (cases "int (currentRevealIndex s) = int (length (assignments s)) - 1")
        case True
        with nx wr assms show ?thesis by (intro vote) (simp_all add: handleRevealCallbacks_def)
      next
        case False
        with nx wr assms show ?thesis by (intro nxt) (simp_all add: handleRevealCallbacks_def)
      qed
    qed
  qed
qed

lemma voting_cases:
  assumes "stage s = voting"
  obtains (same) "handleVotingCallbacks dat s = (InvalidTarget, s) \<or>
                  handleVotingCallbacks dat s = (NoSelection, s) \<or>
                  handleVotingCallbacks dat s = (Ignored, s)"
    | (sel) index where "dat = VoteSelect (Integer index)"
        "0 \<le> index" "index < int (length (assignments s))"
        "handleVotingCallbacks dat s =
           (SelectionRecorded, s\<lparr> votes := array_set (votes s) (currentVoterIndex s) index \<rparr>)"
    | (fin) "dat = VoteConfirm" "array_get (votes s) (currentVoterIndex s) \<noteq> Some (- 1)"
        "int (currentVoterIndex s) = int (length (assignments s)) - 1"
        "handleVotingCallbacks dat s = (ResultAnnounced, s\<lparr> stage := result \<rparr>)"
    | (nxt) "dat = VoteConfirm" "array_get (votes s) (currentVoterIndex s) \<noteq> Some (- 1)"
        "int (currentVoterIndex s) \<noteq> int (length (assignments s)) - 1"
        "handleVotingCallbacks dat s =
           (NextVoter, s\<lparr> currentVoterIndex := currentVoterIndex s + 1 \<rparr>)"
proof (cases dat)
  case (VoteSelect payload)
  show ?thesis
  proof (cases payload)
    case NonInteger
    with VoteSelect assms show ?thesis by (intro same) (simp add: handleVotingCallbacks_def)
  next
    case (Integer index)
    show ?thesis
    proof (cases "index < 0 \<or> index \<ge> int (length (assignments s))")
      case True
      with VoteSelect Integer assms show ?thesis
        by (intro same) (simp add: handleVotingCallbacks_def)
    next
      case False
      with VoteSelect Integer assms show ?thesis
        by (intro sel [of index]) (simp_all add: handleVotingCallbacks_def)
    qed
  qed
next
  case VoteConfirm
  show ?thesis
  proof (cases "array_get (votes s) (currentVoterIndex s) = Some (- 1)")
    case True
    with VoteConfirm assms show ?thesis by (intro same) (simp add: handleVotingCallbacks_def)
  next
    case chosen: False
    show ?thesis
    proof (cases "int (currentVoterIndex s) = int (length (assignments s)) - 1")
      case True
      with VoteConfirm chosen assms show ?thesis
        by (intro fin) (simp_all add: handleVotingCallbacks_def)
    next
      case False
      with VoteConfirm chosen assms show ?thesis
        by (intro nxt) (simp_all add: handleVotingCallbacks_def)
    qed
  qed
qed (use assms in \<open>simp_all add: handleVotingCallbacks_def\<close>)


section \<open>Every session the bot can be in is well formed\<close>

lemma session_ok_reset: "session_ok resetSession"
  by (simp add: ok_defs resetSession_def const_defs)

lemma on_text_ok:
  assumes ok: "session_ok s" and h: "on_text rnd w msg s = Some (r, s')"
  shows "session_ok s'"
proof -
  from ok have su: "setup_ok s" by (simp add: session_ok_def)
  from h show ?thesis
  proof (cases rule: on_text_cases)
    case same with ok show ?thesis by simp
  next
    case (count c toks)
    moreover from count have "3 \<le> nat c" "nat c \<le> 12" by linarith+
    ultimately show ?thesis using su by (simp add: ok_defs)
  next
    case (names num rawNames)
    with su show ?thesis by (simp add: ok_defs)
  next
    case (assign k toks T)
    from su have n: "3 \<le> playerCount s" "length (playerNames s) = playerCount s"
      by (simp_all add: setup_ok_def)
    have "setup_ok s'" using su assign by (simp add: setup_ok_def stage_defs)
    moreover have "cursors_ok s'" using n assign by (simp add: cursors_ok_def stage_defs)
    moreover have "roles_ok s'" using assign
      by (auto simp: roles_ok_def dest: word_buildAssignments)
    moreover have "votes_ok s'" using n assign
      by (simp add: votes_ok_def stage_defs valid_vote_def)
    ultimately show ?thesis by (simp add: session_ok_def)
  qed
qed

lemma reveal_ok:
  assumes ok: "session_ok s" and h: "handleRevealCallbacks dat s = (r, s')"
  shows "session_ok s'"
proof (cases "stage s = reveal")
  case False
  with h ok show ?thesis by (simp add: handleRevealCallbacks_def)
next
  case True
  from ok True have n: "length (assignments s) = playerCount s" "currentRevealIndex s < playerCount s"
    "3 \<le> playerCount s"
    by (simp_all add: ok_defs)
  from True show ?thesis
  proof (cases rule: reveal_cases [of s dat])
    case same with h ok show ?thesis by auto
  next
    case shown
    with h have "s' = s\<lparr> wordRevealed := True \<rparr>" by simp
    with ok True show ?thesis by (simp add: ok_defs)
  next
    case vote
    with h have "s' = s\<lparr> stage := voting, currentVoterIndex := 0 \<rparr>" by simp
    with ok True show ?thesis by (simp add: ok_defs)
  next
    case nxt
    with h have s': "s' = s\<lparr> currentRevealIndex := currentRevealIndex s + 1, wordRevealed := False \<rparr>"
      by simp
    from nxt n have "currentRevealIndex s + 1 < playerCount s" by linarith
    with s' ok True show ?thesis by (simp add: ok_defs)
  qed
qed

lemma voting_ok:
  assumes ok: "session_ok s" and h: "handleVotingCallbacks dat s = (r, s')"
  shows "session_ok s'"
proof (cases "stage s = voting")
  case False
  with h ok show ?thesis by (simp add: handleVotingCallbacks_def)
next
  case True
  from ok True have n: "length (assignments s) = playerCount s" "currentVoterIndex s < playerCount s"
    "3 \<le> playerCount s" "length (votes s) = playerCount s"
    and vv: "\<forall>v \<in> set (votes s). valid_vote (playerCount s) v"
    and before: "\<forall>j < currentVoterIndex s. votes s ! j \<noteq> Some (- 1)"
    by (simp_all add: ok_defs)
  from ok have rest: "setup_ok s" "cursors_ok s" "roles_ok s" by (simp_all add: session_ok_def)
  from True show ?thesis
  proof (cases rule: voting_cases [of s dat])
    case same with h ok show ?thesis by auto
  next
    case (sel index)
    let ?vs = "(votes s)[currentVoterIndex s := Some index]"
    from sel h n have s': "s' = s\<lparr> votes := ?vs \<rparr>" by (simp add: array_set_in_range)
    have "valid_vote (playerCount s) (Some index)" using sel n by (simp add: valid_vote_def)
    with vv have "\<forall>v \<in> set ?vs. valid_vote (playerCount s) v"
      by (auto dest!: set_update_subset_insert [THEN subsetD])
    moreover have "\<forall>j < currentVoterIndex s. ?vs ! j \<noteq> Some (- 1)" using before by simp
    ultimately have "votes_ok s'" using s' n True by (simp add: votes_ok_def stage_defs)
    moreover have "setup_ok s'" "cursors_ok s'" "roles_ok s'" using rest s'
      by (simp_all add: setup_ok_def cursors_ok_def roles_ok_def stage_defs)
    ultimately show ?thesis by (simp add: session_ok_def)
  next
    case fin
    with h have s': "s' = s\<lparr> stage := result \<rparr>" by simp
    from fin n have last: "Suc (currentVoterIndex s) = length (votes s)" by linarith
    have "\<forall>j < length (votes s). votes s ! j \<noteq> Some (- 1)"
    proof (intro allI impI)
      fix j assume "j < length (votes s)"
      with last have "j < currentVoterIndex s \<or> j = currentVoterIndex s" by linarith
      then show "votes s ! j \<noteq> Some (- 1)"
        using before fin(2) n by (auto simp: array_get_in_range)
    qed
    then have "\<forall>v \<in> set (votes s). v \<noteq> Some (- 1)" by (auto simp: in_set_conv_nth)
    with vv n s' have "votes_ok s'" by (simp add: votes_ok_def stage_defs)
    moreover have "setup_ok s'" "cursors_ok s'" "roles_ok s'" using rest s' True
      by (simp_all add: setup_ok_def cursors_ok_def roles_ok_def stage_defs)
    ultimately show ?thesis by (simp add: session_ok_def)
  next
    case nxt
    with h have s': "s' = s\<lparr> currentVoterIndex := currentVoterIndex s + 1 \<rparr>" by simp
    from nxt n have lt: "currentVoterIndex s + 1 < playerCount s" by linarith
    have "\<forall>j < currentVoterIndex s + 1. votes s ! j \<noteq> Some (- 1)"
    proof (intro allI impI)
      fix j assume "j < currentVoterIndex s + 1"
      then have "j < currentVoterIndex s \<or> j = currentVoterIndex s" by linarith
      then show "votes s ! j \<noteq> Some (- 1)"
        using before nxt(2) n by (auto simp: array_get_in_range)
    qed
    with vv n s' True have "votes_ok s'" by (simp add: votes_ok_def stage_defs)
    moreover have "setup_ok s'" "cursors_ok s'" "roles_ok s'" using rest s' True lt
      by (simp_all add: setup_ok_def cursors_ok_def roles_ok_def stage_defs)
    ultimately show ?thesis by (simp add: session_ok_def)
  qed
qed

lemma callback_ok:
  assumes "session_ok s" "on_callback_query dat s = (r, s')"
  shows "session_ok s'"
proof (cases dat)
  case OtherData
  with assms show ?thesis by (simp add: on_callback_query_def)
qed (use assms in \<open>auto simp: on_callback_query_def intro: reveal_ok voting_ok\<close>)

lemma handle_ok:
  assumes "session_ok s" "handle e s = Some (r, s')"
  shows "session_ok s'"
proof (cases e)
  case (Text rnd w message)
  with assms show ?thesis by (auto dest: on_text_ok)
next
  case (CallbackQuery dat)
  with assms show ?thesis by (auto dest: callback_ok)
qed (use assms in \<open>auto simp: session_ok_reset\<close>)

lemma reachable_ok: "reachable s \<Longrightarrow> session_ok s"
  by (induction rule: reachable.induct) (auto intro: session_ok_reset handle_ok)

lemma reachable_run:
  "reachable s \<Longrightarrow> run es s = Some s' \<Longrightarrow> reachable s'"
proof (induction es arbitrary: s)
  case Nil
  then show ?case by simp
next
  case (Cons e es)
  then obtain r s1 where step: "handle e s = Some (r, s1)" and rest: "run es s1 = Some s'"
    by (auto split: option.splits)
  from Cons.prems(1) step have "reachable s1" by (rule reachable.after)
  with rest show ?case by (rule Cons.IH [rotated])
qed


section \<open>The cursors only move forward\<close>

lemma on_text_cursors:
  assumes ok: "session_ok s" and h: "on_text rnd w msg s = Some (r, s')"
  shows "currentRevealIndex s \<le> currentRevealIndex s' \<and>
         currentVoterIndex s \<le> currentVoterIndex s'"
  using h
proof (cases rule: on_text_cases)
  case (assign k toks T)
  with ok show ?thesis by (simp add: ok_defs)
qed simp_all

lemma reveal_cursors:
  assumes ok: "session_ok s" and h: "handleRevealCallbacks dat s = (r, s')"
  shows "currentRevealIndex s \<le> currentRevealIndex s' \<and>
         currentVoterIndex s \<le> currentVoterIndex s'"
proof (cases "stage s = reveal")
  case False
  with h show ?thesis by (simp add: handleRevealCallbacks_def)
next
  case True
  then show ?thesis
  proof (cases rule: reveal_cases [of s dat])
    case vote
    with h have "s' = s\<lparr> stage := voting, currentVoterIndex := 0 \<rparr>" by simp
    moreover from ok True have "currentVoterIndex s = 0" by (simp add: ok_defs)
    ultimately show ?thesis by simp
  qed (use h in auto)
qed

lemma voting_cursors:
  assumes h: "handleVotingCallbacks dat s = (r, s')"
  shows "currentRevealIndex s \<le> currentRevealIndex s' \<and>
         currentVoterIndex s \<le> currentVoterIndex s'"
proof (cases "stage s = voting")
  case False
  with h show ?thesis by (simp add: handleVotingCallbacks_def)
next
  case True
  then show ?thesis
    by (cases rule: voting_cases [of s dat]) (use h in auto)
qed

lemma callback_cursors:
  assumes ok: "session_ok s" and h: "on_callback_query dat s = (r, s')"
  shows "currentRevealIndex s \<le> currentRevealIndex s' \<and>
         currentVoterIndex s \<le> currentVoterIndex s'"
proof (cases dat)
  case OtherData
  with h show ?thesis by (simp add: on_callback_query_def)
qed (use assms in \<open>auto simp: on_callback_query_def dest: reveal_cursors voting_cursors\<close>)

lemma handle_cursors:
  assumes "session_ok s" "in_game e" "handle e s = Some (r, s')"
  shows "currentRevealIndex s \<le> currentRevealIndex s' \<and>
         currentVoterIndex s \<le> currentVoterIndex s'"
proof (cases e)
  case (Text rnd w message)
  with assms show ?thesis by (auto dest: on_text_cursors)
next
  case (CallbackQuery dat)
  with assms show ?thesis by (auto dest: callback_cursors)
qed (use assms in simp_all)

lemma run_cursors:
  "reachable s \<Longrightarrow> list_all in_game es \<Longrightarrow> run es s = Some s' \<Longrightarrow>
     currentRevealIndex s \<le> currentRevealIndex s' \<and>
     currentVoterIndex s \<le> currentVoterIndex s'"
proof (induction es arbitrary: s)
  case Nil
  then show ?case by simp
next
  case (Cons e es)
  then obtain r s1 where step: "handle e s = Some (r, s1)" and rest: "run es s1 = Some s'"
    by (auto split: option.splits)
  from Cons.prems(1) step have r1: "reachable s1" by (rule reachable.after)
  from Cons.prems have "in_game e" "list_all in_game es" by simp_all
  with handle_cursors [OF reachable_ok [OF Cons.prems(1)] _ step] Cons.IH [OF r1 _ rest]
  show ?case by force
qed

lemma cursors_bounded:
  assumes "session_ok s"
  shows "currentRevealIndex s < playerCount s \<and> currentVoterIndex s < playerCount s"
proof (cases "in_play s")
  case True
  with assms show ?thesis by (simp add: session_ok_def cursors_ok_def)
next
  case False
  with assms have "in_setup s" "3 \<le> playerCount s" by (auto simp: session_ok_def setup_ok_def)
  with assms show ?thesis by (simp add: session_ok_def setup_ok_def)
qed


section \<open>The two ways of finding the highest vote\<close>

lemma foldl_max:
  fixes f :: "'a \<Rightarrow> nat"
  shows "foldl (\<lambda>acc x. max acc (f x)) a xs = Max (insert a (f ` set xs))"
proof (induction xs arbitrary: a)
  case Nil
  then show ?case by simp
next
  case (Cons x xs)
  have "Max (insert (max a (f x)) (f ` set xs)) = Max (insert a (insert (f x) (f ` set xs)))"
    by (cases "f ` set xs = {}") (simp_all add: max.assoc)
  with Cons show ?case by simp
qed

text \<open>What one entry of \<open>votes\<close> contributes in the bot's fold.\<close>

lemma highestVoteOf_Max:
  "highestVoteOf vs =
     Max (insert 0 ((\<lambda>vote. case vote of None \<Rightarrow> 0
                            | Some v \<Rightarrow> if v = - 1 then 0 else occurrences vs v) ` set vs))"
proof -
  let ?h = "\<lambda>vote. case vote of None \<Rightarrow> 0 | Some v \<Rightarrow> if v = - 1 then 0 else occurrences vs v"
  have "(\<lambda>acc vote. case vote of None \<Rightarrow> acc
                     | Some v \<Rightarrow> if v = - 1 then acc else max acc (occurrences vs v))
        = (\<lambda>acc vote. max acc (?h vote))"
    by (auto simp: fun_eq_iff split: option.splits)
  then show ?thesis unfolding highestVoteOf_def by (simp only: foldl_max)
qed

lemma map_entryVotes_getVoteSummary:
  "map entryVotes (getVoteSummary vs players)
     = map (\<lambda>i. occurrences vs (int i)) [0..<length players]"
proof -
  have "map entryVotes (getVoteSummary vs players)
          = map ((\<lambda>i. occurrences vs (int i)) \<circ> fst) (enumerate 0 players)"
    by (simp add: getVoteSummary_def case_prod_unfold comp_def)
  also have "\<dots> = map (\<lambda>i. occurrences vs (int i)) (map fst (enumerate 0 players))"
    by (simp only: map_map)
  finally show ?thesis by simp
qed

lemma map_player_getVoteSummary: "map player (getVoteSummary vs players) = players"
proof -
  have "map player (getVoteSummary vs players) = map snd (enumerate 0 players)"
    by (simp add: getVoteSummary_def case_prod_unfold comp_def)
  then show ?thesis by simp
qed

lemma renderResult_highestVote_Max:
  "renderResult_highestVote (getVoteSummary vs players)
     = Max (insert 0 ((\<lambda>i. occurrences vs (int i)) ` {0..<length players}))"
proof -
  have "renderResult_highestVote (getVoteSummary vs players)
          = Max (insert 0 (set (map entryVotes (getVoteSummary vs players))))"
    unfolding renderResult_highestVote_def by (simp only: foldl_max set_map)
  then show ?thesis by (simp add: map_entryVotes_getVoteSummary)
qed

lemma occurrences_pos_iff: "0 < occurrences vs v \<longleftrightarrow> Some v \<in> set vs"
  by (auto simp: occurrences_def filter_empty_conv)

lemma highest_sets_equal:
  assumes "\<forall>v \<in> set vs. valid_vote n v"
  shows "insert 0 ((\<lambda>vote. case vote of None \<Rightarrow> 0
                          | Some v \<Rightarrow> if v = - 1 then 0 else occurrences vs v) ` set vs)
         = insert 0 ((\<lambda>i. occurrences vs (int i)) ` {0..<n})"
proof -
  define h where "h = (\<lambda>vote. case vote of None \<Rightarrow> 0
                          | Some v \<Rightarrow> if v = - 1 then 0 else occurrences vs v)"
  define c where "c = (\<lambda>i. occurrences vs (int i))"
  have h_Some: "h (Some x) = occurrences vs x" if "x \<noteq> - 1" for x
    using that by (simp add: h_def)
  have h_minus: "h (Some (- 1)) = 0" by (simp add: h_def)
  have "insert 0 (h ` set vs) = insert 0 (c ` {0..<n})"
  proof (intro equalityI subsetI)
    fix y assume "y \<in> insert 0 (h ` set vs)"
    then consider "y = 0" | vote where "vote \<in> set vs" "y = h vote" by blast
    then show "y \<in> insert 0 (c ` {0..<n})"
    proof cases
      case 1
      then show ?thesis by simp
    next
      case 2
      with assms have "valid_vote n vote" by blast
      then obtain x where x: "vote = Some x" "x = - 1 \<or> (0 \<le> x \<and> x < int n)"
        by (cases vote) (simp_all add: valid_vote_def)
      show ?thesis
      proof (cases "x = - 1")
        case True
        with 2 x h_minus show ?thesis by simp
      next
        case False
        with x have nx: "int (nat x) = x" "nat x < n" by linarith+
        from 2 x False have "y = occurrences vs x" by (simp add: h_Some)
        with nx have "y = c (nat x)" by (simp add: c_def)
        moreover from nx have "nat x \<in> {0..<n}" by simp
        ultimately show ?thesis by blast
      qed
    qed
  next
    fix y assume "y \<in> insert 0 (c ` {0..<n})"
    then consider "y = 0" | i where "i < n" "y = c i" by auto
    then show "y \<in> insert 0 (h ` set vs)"
    proof cases
      case 1
      then show ?thesis by simp
    next
      case 2
      show ?thesis
      proof (cases "y = 0")
        case True
        then show ?thesis by simp
      next
        case False
        with 2 have "0 < occurrences vs (int i)" by (simp add: c_def)
        then have mem: "Some (int i) \<in> set vs" by (simp add: occurrences_pos_iff)
        have "int i \<noteq> - 1" by linarith
        then have "h (Some (int i)) = y" using 2 by (simp add: h_Some c_def)
        with mem show ?thesis by blast
      qed
    qed
  qed
  then show ?thesis by (simp only: h_def c_def)
qed

lemma highest_equal:
  assumes "\<forall>v \<in> set vs. valid_vote (length players) v"
  shows "highestVoteOf vs = renderResult_highestVote (getVoteSummary vs players)"
  by (simp only: highestVoteOf_Max renderResult_highestVote_Max highest_sets_equal [OF assms])

lemma highestVoteOf_pos:
  assumes "vs \<noteq> []" "\<forall>v \<in> set vs. valid_vote n v" "\<forall>v \<in> set vs. v \<noteq> Some (- 1)"
  shows "1 \<le> highestVoteOf vs"
proof -
  let ?h = "\<lambda>vote. case vote of None \<Rightarrow> 0 | Some v \<Rightarrow> if v = - 1 then 0 else occurrences vs v"
  from assms(1) obtain v where v: "v \<in> set vs" by (cases vs) auto
  with assms obtain x where x: "v = Some x" "x \<noteq> - 1"
    by (auto simp: valid_vote_def split: option.splits)
  with v have "0 < occurrences vs x" by (simp add: occurrences_pos_iff)
  with x have "1 \<le> ?h v" by simp
  moreover have "?h v \<le> Max (insert 0 (?h ` set vs))" using v by (intro Max_ge) auto
  ultimately show ?thesis by (simp only: highestVoteOf_Max)
qed


section \<open>Single steps, spelled out\<close>

lemma on_text_assign:
  assumes "stage s = askImposterCount" "1 \<le> k" "k \<le> getMaxImposters (int (playerCount s))"
  shows "on_text rnd w (Plain (Integer k) toks) s =
     (case drawImposters rnd (playerCount s) k {} 0 of
        None \<Rightarrow> None
      | Some T \<Rightarrow>
          Some (CardsReady,
            s\<lparr> imposterCount := nat k,
               assignments := buildAssignments (playerNames s) T w,
               selectedWord := w,
               votes := replicate (playerCount s) (Some (- 1)),
               currentRevealIndex := 0, wordRevealed := False,
               currentVoterIndex := 0, stage := reveal \<rparr>))"
  using assms by (simp add: on_text_def Let_def const_defs)

lemma select_step:
  assumes "stage s = voting" "0 \<le> t" "t < int (length (assignments s))"
    "currentVoterIndex s < length (votes s)"
  shows "handle (CallbackQuery (VoteSelect (Integer t))) s =
           Some (SelectionRecorded, s\<lparr> votes := (votes s)[currentVoterIndex s := Some t] \<rparr>)"
  using assms
  by (simp add: on_callback_query_def handleVotingCallbacks_def array_set_in_range)

lemma select_run:
  assumes "session_ok s" "stage s = voting"
    "\<forall>t \<in> set ts. 0 \<le> t \<and> t < int (playerCount s)"
  shows "run (map (\<lambda>t. CallbackQuery (VoteSelect (Integer t))) ts) s =
           Some (if ts = [] then s
                 else s\<lparr> votes := (votes s)[currentVoterIndex s := Some (last ts)] \<rparr>)"
  using assms
proof (induction ts arbitrary: s)
  case Nil
  then show ?case by simp
next
  case (Cons t ts)
  let ?s1 = "s\<lparr> votes := (votes s)[currentVoterIndex s := Some t] \<rparr>"
  from Cons.prems have n: "length (assignments s) = playerCount s"
    "currentVoterIndex s < length (votes s)"
    by (simp_all add: ok_defs)
  with Cons.prems have step: "handle (CallbackQuery (VoteSelect (Integer t))) s =
      Some (SelectionRecorded, ?s1)"
    by (intro select_step) simp_all
  from handle_ok [OF Cons.prems(1) step] have ok1: "session_ok ?s1" .
  have "run (map (\<lambda>t. CallbackQuery (VoteSelect (Integer t))) ts) ?s1 =
          Some (if ts = [] then ?s1
                else ?s1\<lparr> votes := (votes ?s1)[currentVoterIndex ?s1 := Some (last ts)] \<rparr>)"
    using Cons.prems by (intro Cons.IH [OF ok1]) simp_all
  with step show ?case by simp
qed


section \<open>The reference game, step by step\<close>

lemma random_source_rising: "random_source rising_source"
  by (simp add: random_source_def rising_source_def)


lemma run_append:
  "run (es @ fs) s = (case run es s of None \<Rightarrow> None | Some s' \<Rightarrow> run fs s')"
  by (induction es arbitrary: s) (auto split: option.splits)

lemma run_example_dialogue: "run example_dialogue resetSession = Some example_asking"
  by (simp add: example_dialogue_def example_asking_def resetSession_def on_text_def
      const_defs ensureNameList_def)

lemma draw_one_rising: "drawImposters rising_source 3 1 {} 0 = Some {0}"
  by (simp add: drawImposters.simps rising_source_def randomIndex_def)

lemma draw_two_rising: "drawImposters rising_source 3 2 {} 0 = Some {0, 1}"
  by (simp add: drawImposters.simps rising_source_def randomIndex_def insert_commute)

lemma run_example_deal: "run example_deal example_asking = Some example_dealt"
proof -
  have "drawImposters rising_source (Suc (Suc (Suc 0))) 1 {} 0 = Some {0}"
    using draw_one_rising by (simp add: numeral_3_eq_3)
  then show ?thesis
    by (simp add: example_deal_def example_asking_def example_dealt_def example_players_def
        on_text_def const_defs getMaxImposters_def buildAssignments_def numeral_3_eq_3)
qed

lemma run_example_reveals: "run example_reveals example_dealt = Some example_voting"
  by (simp add: example_reveals_def example_dealt_def example_voting_def example_players_def
      on_callback_query_def handleRevealCallbacks_def)

lemma run_example_ballots: "run example_ballots example_voting = Some example_finished"
  by (simp add: example_ballots_def example_dealt_def example_voting_def example_finished_def
      example_players_def on_callback_query_def handleVotingCallbacks_def
      array_set_def array_get_def)

lemma reachable_example_asking: "reachable example_asking"
  using reachable.fresh run_example_dialogue by (rule reachable_run)

lemma reachable_example_dealt: "reachable example_dealt"
  using reachable_example_asking run_example_deal by (rule reachable_run)

lemma reachable_example_voting: "reachable example_voting"
  using reachable_example_dealt run_example_reveals by (rule reachable_run)

lemma reachable_example_finished: "reachable example_finished"
  using reachable_example_voting run_example_ballots by (rule reachable_run)

lemma run_example_ballots_tie: "run example_ballots_tie example_voting = Some example_tied"
  by (simp add: example_ballots_tie_def example_dealt_def example_voting_def example_tied_def
      example_players_def on_callback_query_def handleVotingCallbacks_def
      array_set_def array_get_def)

lemma run_example_ballots_all: "run example_ballots_all example_voting = Some example_unanimous"
  by (simp add: example_ballots_all_def example_dealt_def example_voting_def
      example_unanimous_def example_players_def on_callback_query_def
      handleVotingCallbacks_def array_set_def array_get_def)

lemma reachable_example_tied: "reachable example_tied"
  using reachable_example_voting run_example_ballots_tie by (rule reachable_run)

lemma reachable_example_unanimous: "reachable example_unanimous"
  using reachable_example_voting run_example_ballots_all by (rule reachable_run)


section \<open>The web client, handler by handler\<close>

text \<open>
  The web client shows only the controls of the current stage, and the button for the next
  player only once the word is shown; its handlers do not check the stage themselves. Its
  two counters do not reject a number out of range: they clamp it.
\<close>

lemma adjustPlayerCount_clamps:
  "playerCount (adjustPlayerCount count a) = nat (max 3 (min 12 count)) \<and>
   3 \<le> playerCount (adjustPlayerCount count a) \<and> playerCount (adjustPlayerCount count a) \<le> 12 \<and>
   length (playerNames (adjustPlayerCount count a)) = playerCount (adjustPlayerCount count a)"
  by (simp add: adjustPlayerCount_def Let_def const_defs) linarith

lemma adjustPlayerCount_below: "playerCount (adjustPlayerCount 2 a) = 3"
  by (simp add: adjustPlayerCount_def Let_def const_defs)

lemma adjustImposterCount_clamps:
  assumes "2 \<le> playerCount a"
  shows "imposterCount (adjustImposterCount count a)
           = nat (max 1 (min (int (playerCount a) - 1) count)) \<and>
         1 \<le> imposterCount (adjustImposterCount count a) \<and>
         imposterCount (adjustImposterCount count a) \<le> playerCount a - 1"
  using assms by (simp add: adjustImposterCount_def Let_def getMaxImposters_eq const_defs) linarith

text \<open>Starting the game from valid counts: the same loop and the same assignments as in
  the bot, hence the same counts and words.\<close>

lemma handleStartGame_counts:
  assumes "3 \<le> playerCount a" and "1 \<le> imposterCount a"
    and "imposterCount a \<le> playerCount a - 1" and "random_source rnd"
    and "handleStartGame trim rnd w a = Some a'"
  shows "stage a' = reveal_app \<and> error a' = NoError \<and>
         length (assignments a') = playerCount a \<and>
         length (votes a') = playerCount a \<and>
         length (filter isImposter (assignments a')) = imposterCount a \<and>
         (\<forall>x \<in> set (assignments a').
            word x = (if isImposter x then None else Some (selectedWord a')))"
proof -
  define names where "names =
     ensureNameList (playerCount a)
       (map (\<lambda>(index, nm). if length (trim nm) > 0 then trim nm else createDefaultName index)
            (enumerate 0 (playerNames a)))"
  have len: "length names = playerCount a" by (simp add: names_def)
  with assms have mx: "getMaxImposters (int (length names)) = int (playerCount a) - 1"
    by (simp add: getMaxImposters_eq)
  from assms(1,3) len mx have guards: "\<not> int (length names) < MIN_PLAYERS"
    "\<not> int (imposterCount a) > getMaxImposters (int (length names))"
    by (simp_all add: const_defs)
  from assms(5) guards obtain T where
    T: "drawImposters rnd (length names) (int (imposterCount a)) {} 0 = Some T"
    and a': "a' = a\<lparr> error := NoError,
                     playerNames := names,
                     assignments := buildAssignments names T w,
                     selectedWord := w,
                     votes := replicate (length names) (Some (- 1)),
                     currentVoterIndex := 0,
                     currentRevealIndex := 0,
                     wordRevealed := False,
                     stage := reveal_app \<rparr>"
    unfolding handleStartGame_def names_def [symmetric] Let_def
    by (auto split: option.splits)
  from drawImposters_count [OF T assms(4)] assms(1) len
  have "int (length (filter isImposter (buildAssignments names T w))) = int (imposterCount a)"
    by simp
  with a' len show ?thesis by (auto dest: word_buildAssignments)
qed

text \<open>The two cursors of the web client, one step at a time.\<close>

lemma handleNextPlayer_cursor:
  assumes "currentRevealIndex a < length (assignments a)"
  shows "currentRevealIndex a \<le> currentRevealIndex (handleNextPlayer a) \<and>
         currentRevealIndex (handleNextPlayer a) < length (assignments a) \<and>
         assignments (handleNextPlayer a) = assignments a"
proof (cases "int (currentRevealIndex a) = int (length (assignments a)) - 1")
  case True
  then show ?thesis using assms by (simp add: handleNextPlayer_def)
next
  case False
  with assms have "currentRevealIndex a + 1 < length (assignments a)" by linarith
  with False show ?thesis by (simp add: handleNextPlayer_def)
qed

lemma press_nextPlayer_before_show:
  assumes "\<not> wordRevealed a"
  shows "press_nextPlayer a = a"
  using assms by (simp add: press_nextPlayer_def nextPlayer_rendered_def)

lemma handleConfirmVote_cursor:
  assumes "currentVoterIndex a < length (assignments a)"
  shows "currentVoterIndex a \<le> currentVoterIndex (handleConfirmVote a) \<and>
         currentVoterIndex (handleConfirmVote a) < length (assignments a) \<and>
         currentRevealIndex (handleConfirmVote a) = currentRevealIndex a \<and>
         assignments (handleConfirmVote a) = assignments a"
proof (cases "array_get (votes a) (currentVoterIndex a) = Some (- 1)")
  case True
  then show ?thesis using assms by (simp add: handleConfirmVote_def)
next
  case chosen: False
  show ?thesis
  proof (cases "int (currentVoterIndex a) = int (length (assignments a)) - 1")
    case True
    with chosen show ?thesis using assms by (simp add: handleConfirmVote_def)
  next
    case False
    with assms have "currentVoterIndex a + 1 < length (assignments a)" by linarith
    with False chosen show ?thesis by (simp add: handleConfirmVote_def)
  qed
qed

lemma handleConfirmVote_no_selection:
  assumes "array_get (votes a) (currentVoterIndex a) = Some (- 1)"
  shows "handleConfirmVote a = a\<lparr> error := NoVoteSelected \<rparr>"
  using assms by (simp add: handleConfirmVote_def)

text \<open>Selecting again and again in the web client: the last selection stays.\<close>

lemma handleSelectVote_fold:
  assumes "currentVoterIndex a < length (votes a)" and "ts \<noteq> []"
  shows "votes (fold handleSelectVote ts a) = (votes a)[currentVoterIndex a := Some (last ts)] \<and>
         currentVoterIndex (fold handleSelectVote ts a) = currentVoterIndex a"
  using assms
proof (induction ts arbitrary: a)
  case Nil
  then show ?case by simp
next
  case (Cons t ts)
  let ?a1 = "handleSelectVote t a"
  from Cons.prems have a1: "votes ?a1 = (votes a)[currentVoterIndex a := Some t]"
    "currentVoterIndex ?a1 = currentVoterIndex a"
    by (simp_all add: handleSelectVote_def array_set_in_range)
  show ?case
  proof (cases "ts = []")
    case True
    with a1 show ?thesis by simp
  next
    case False
    from a1 Cons.prems have "currentVoterIndex ?a1 < length (votes ?a1)" by simp
    from Cons.IH [OF this False] a1 False show ?thesis by simp
  qed
qed


section \<open>The summary, in terms of the library\<close>

text \<open>The count of the source is the library's count of an element in a list.\<close>

lemma occurrences_count_list: "occurrences vs v = count_list vs (Some v)"
  by (induction vs) (simp_all add: occurrences_def)

text \<open>Joining puts the separator before every name but the first.\<close>

lemma join_concat:
  "ns \<noteq> [] \<Longrightarrow> join sep ns = hd ns @ concat (map (\<lambda>n. sep @ n) (tl ns))"
  by (induction sep ns rule: join.induct) simp_all

lemma getVoteSummary_upt:
  "getVoteSummary vs players
     = map (\<lambda>i. \<lparr> player = players ! i, entryVotes = count_list vs (Some (int i)) \<rparr>)
           [0..<length players]"
proof (rule nth_equalityI)
  show "length (getVoteSummary vs players)
        = length (map (\<lambda>i. \<lparr> player = players ! i,
                                entryVotes = count_list vs (Some (int i)) \<rparr>)
                      [0..<length players])"
    by (simp add: getVoteSummary_def)
next
  fix i assume "i < length (getVoteSummary vs players)"
  then have i: "i < length players" by (simp add: getVoteSummary_def)
  then show "getVoteSummary vs players ! i
        = map (\<lambda>i. \<lparr> player = players ! i, entryVotes = count_list vs (Some (int i)) \<rparr>)
              [0..<length players] ! i"
    by (simp add: getVoteSummary_def nth_enumerate_eq occurrences_count_list)
qed

text \<open>The names that \<open>mostVoted\<close> joins, for a highest vote above 0.\<close>

lemma mostVoted_names:
  assumes "0 < h"
  shows "map (\<lambda>entry. name (player entry))
           (filter (\<lambda>entry. entryVotes entry = h \<and> h > 0) (getVoteSummary vs players))
         = map (\<lambda>i. name (players ! i))
             (filter (\<lambda>i. count_list vs (Some (int i)) = h) [0..<length players])"
  using assms by (simp add: getVoteSummary_upt filter_map comp_def)

text \<open>A greatest element of a non-empty list of numbers is one of them.\<close>

lemma Max_attained:
  fixes f :: "nat \<Rightarrow> nat"
  assumes "0 < n"
  shows "filter (\<lambda>i. f i = Max (f ` {0..<n})) [0..<n] \<noteq> []"
proof -
  from assms have "f ` {0..<n} \<noteq> {}" by simp
  then have "Max (f ` {0..<n}) \<in> f ` {0..<n}" by (intro Max_in) simp_all
  then obtain i where "i < n" "f i = Max (f ` {0..<n})" by auto
  then have "i \<in> set (filter (\<lambda>i. f i = Max (f ` {0..<n})) [0..<n])" by simp
  then show ?thesis by (metis empty_iff empty_set)
qed


section \<open>The claims\<close>

text \<open>
  C1. A session reached by the setup dialogue waits for the number of imposters with
  \<open>n\<close> players. When the answer \<open>k\<close> is between 1 and \<open>n - 1\<close> and the handler returns,
  \<open>n\<close> is between 3 and 12, there are \<open>n\<close> assignments, and exactly \<open>k\<close> of them are
  imposters.
\<close>

theorem C1_assignment_counts:
  assumes "reachable s" and "stage s = askImposterCount" and "playerCount s = n"
    and "1 \<le> k" and "k \<le> int n - 1" and "random_source rnd"
    and "on_text rnd w (Plain (Integer k) toks) s = Some (r, s')"
  shows "3 \<le> n \<and> n \<le> 12 \<and> length (assignments s') = n \<and>
         int (length (filter isImposter (assignments s'))) = k"
proof -
  from reachable_ok [OF assms(1)] assms(3)
  have n: "3 \<le> n" "n \<le> 12" "length (playerNames s) = n"
    by (simp_all add: session_ok_def setup_ok_def)
  with assms have "k \<le> getMaxImposters (int (playerCount s))"
    by (simp add: getMaxImposters_eq)
  from on_text_assign [OF assms(2,4) this] assms(3,7) obtain T where
    T: "drawImposters rnd n k {} 0 = Some T"
    and s': "assignments s' = buildAssignments (playerNames s) T w"
    by (auto split: option.splits)
  from T n have "drawImposters rnd (length (playerNames s)) k {} 0 = Some T" by simp
  from drawImposters_count [OF this assms(6)] n assms(4) s'
  have "int (length (filter isImposter (assignments s'))) = k" by simp
  with n s' show ?thesis by simp
qed

theorem C1_assignment_counts_witness:
  "reachable example_asking \<and> stage example_asking = askImposterCount \<and>
   playerCount example_asking = 3 \<and> (1::int) \<le> 2 \<and> (2::int) \<le> int 3 - 1 \<and>
   random_source rising_source \<and>
   (\<exists>r s'. on_text rising_source example_word (Plain (Integer 2) [[0x32]]) example_asking
              = Some (r, s') \<and>
            length (assignments s') = 3 \<and>
            int (length (filter isImposter (assignments s'))) = 2)"
proof -
  have st: "stage example_asking = askImposterCount" and pc: "playerCount example_asking = 3"
    by (simp_all add: example_asking_def)
  have "getMaxImposters (int (playerCount example_asking)) = 2"
    by (simp add: pc getMaxImposters_def const_defs)
  then have "on_text rising_source example_word (Plain (Integer 2) [[0x32]]) example_asking
        = Some (CardsReady,
            example_asking\<lparr> imposterCount := nat 2,
               assignments := buildAssignments (playerNames example_asking) {0, 1} example_word,
               selectedWord := example_word,
               votes := replicate (playerCount example_asking) (Some (- 1)),
               currentRevealIndex := 0, wordRevealed := False,
               currentVoterIndex := 0, stage := reveal \<rparr>)"
    (is "_ = Some (_, ?s')")
    by (subst on_text_assign) (simp_all add: st pc draw_two_rising)
  from this C1_assignment_counts [OF reachable_example_asking st pc _ _ random_source_rising this]
  show ?thesis using reachable_example_asking random_source_rising st pc by auto
qed

text \<open>
  C2. In every session the bot can be in, an assignment that is not an imposter carries
  the selected word of the session, and an imposter carries no word.
\<close>

theorem C2_words:
  assumes "reachable s" and "a \<in> set (assignments s)"
  shows "(\<not> isImposter a \<longrightarrow> word a = Some (selectedWord s)) \<and>
         (isImposter a \<longrightarrow> word a = None)"
  using reachable_ok [OF assms(1)] assms(2)
  by (auto simp: session_ok_def roles_ok_def)

theorem C2_words_witness:
  "reachable example_dealt \<and>
   assignments example_dealt ! 0 \<in> set (assignments example_dealt) \<and>
   assignments example_dealt ! 1 \<in> set (assignments example_dealt) \<and>
   isImposter (assignments example_dealt ! 0) \<and>
   word (assignments example_dealt ! 0) = None \<and>
   \<not> isImposter (assignments example_dealt ! 1) \<and>
   word (assignments example_dealt ! 1) = Some (selectedWord example_dealt)"
proof -
  have m0: "assignments example_dealt ! 0 \<in> set (assignments example_dealt)"
    and m1: "assignments example_dealt ! 1 \<in> set (assignments example_dealt)"
    by (simp_all add: example_dealt_def example_players_def)
  have i0: "isImposter (assignments example_dealt ! 0)"
    and i1: "\<not> isImposter (assignments example_dealt ! 1)"
    by (simp_all add: example_dealt_def example_players_def)
  from C2_words [OF reachable_example_dealt m0] C2_words [OF reachable_example_dealt m1]
    reachable_example_dealt m0 m1 i0 i1
  show ?thesis by blast
qed





text \<open>
  C4. From any session the bot can be in, handle any sequence of events of the game in
  progress (anything but the two commands that start a new game). If the handlers return,
  neither cursor has moved back, and both are at most the number of players less one.
\<close>

theorem C4_cursors_monotone:
  assumes "reachable s" and "list_all in_game es" and "run es s = Some s'"
  shows "currentRevealIndex s \<le> currentRevealIndex s' \<and>
         currentVoterIndex s \<le> currentVoterIndex s' \<and>
         int (currentRevealIndex s') \<le> int (playerCount s') - 1 \<and>
         int (currentVoterIndex s') \<le> int (playerCount s') - 1"
proof -
  from reachable_run [OF assms(1,3)] have "session_ok s'" by (rule reachable_ok)
  from cursors_bounded [OF this] run_cursors [OF assms] show ?thesis by simp
qed

theorem C4_cursors_monotone_witness:
  "reachable example_dealt \<and> list_all in_game (example_reveals @ example_ballots) \<and>
   run (example_reveals @ example_ballots) example_dealt = Some example_finished \<and>
   currentRevealIndex example_dealt = 0 \<and> currentRevealIndex example_finished = 2 \<and>
   currentVoterIndex example_dealt = 0 \<and> currentVoterIndex example_finished = 2 \<and>
   int (currentRevealIndex example_finished) \<le> int (playerCount example_finished) - 1 \<and>
   int (currentVoterIndex example_finished) \<le> int (playerCount example_finished) - 1"
proof -
  have g: "list_all in_game (example_reveals @ example_ballots)"
    by (simp add: example_reveals_def example_ballots_def)
  have r: "run (example_reveals @ example_ballots) example_dealt = Some example_finished"
    by (simp add: run_append run_example_reveals run_example_ballots)
  have "currentRevealIndex example_dealt = 0" "currentRevealIndex example_finished = 2"
    "currentVoterIndex example_dealt = 0" "currentVoterIndex example_finished = 2"
    by (simp_all add: example_dealt_def example_voting_def example_finished_def)
  with C4_cursors_monotone [OF reachable_example_dealt g r] reachable_example_dealt g r
  show ?thesis by simp
qed


text \<open>
  C5. The result is a function of the session alone. In every session the bot can be in
  once the game is finished: the summary lists the players in order, each with the number
  of entries of \<open>votes\<close> equal to the player's index; the highest vote is the greatest of
  these numbers and at least 1; and the most voted names are the names of all the players
  whose number equals it, every one of them, in order, with a comma and a space before
  each name but the first. For three players and the votes 1, 1, 2 the numbers are
  0, 2, 1, the highest vote is 2, and the one name is that of the player at index 1.
  The numbers are counted, the greatest is taken and the names are put together with the
  functions of the library, not with those of the program.
\<close>

theorem C5_result_summary:
  assumes "reachable s" and "stage s = result"
    and "assignments t = [a0, a1, a2]" and "votes t = [Some 1, Some 1, Some 2]"
  shows "map player (voteSummary (computeResultSummary s)) = assignments s \<and>
         map entryVotes (voteSummary (computeResultSummary s))
           = map (\<lambda>i. count_list (votes s) (Some (int i))) [0..<playerCount s] \<and>
         highestVote (computeResultSummary s)
           = Max ((\<lambda>i. count_list (votes s) (Some (int i))) ` {0..<playerCount s}) \<and>
         1 \<le> highestVote (computeResultSummary s) \<and>
         (let tied = map (\<lambda>i. name (assignments s ! i))
                       (filter (\<lambda>i. count_list (votes s) (Some (int i))
                                       = highestVote (computeResultSummary s))
                          [0..<playerCount s])
          in tied \<noteq> [] \<and>
             mostVotedNames (computeResultSummary s)
               = hd tied @ concat (map (\<lambda>n. [0x2C, 0x20] @ n) (tl tied))) \<and>
         map entryVotes (voteSummary (computeResultSummary t)) = [0, 2, 1] \<and>
         highestVote (computeResultSummary t) = 2 \<and>
         mostVotedNames (computeResultSummary t) = name a1"
proof -
  from reachable_ok [OF assms(1)] assms(2)
  have n: "3 \<le> playerCount s" "length (assignments s) = playerCount s"
    "length (votes s) = playerCount s"
    and vv: "\<forall>v \<in> set (votes s). valid_vote (playerCount s) v"
    and cast: "\<forall>v \<in> set (votes s). v \<noteq> Some (- 1)"
    by (simp_all add: ok_defs)
  let ?sum = "getVoteSummary (votes s) (assignments s)"
  let ?count = "\<lambda>i. count_list (votes s) (Some (int i))"
  let ?h = "highestVoteOf (votes s)"
  have hv: "highestVote (computeResultSummary s) = ?h"
    and vs: "voteSummary (computeResultSummary s) = ?sum"
    and mv: "mostVotedNames (computeResultSummary s) = mostVoted ?h ?sum"
    by (simp_all add: computeResultSummary_def Let_def)
  have players: "map player ?sum = assignments s"
    by (rule map_player_getVoteSummary)
  have counts: "map entryVotes ?sum = map ?count [0..<playerCount s]"
    using n by (simp add: getVoteSummary_upt comp_def)
  from n have ne: "votes s \<noteq> []" by auto
  have pos: "1 \<le> ?h"
    using ne vv cast by (rule highestVoteOf_pos)
  from vv n have "?h = renderResult_highestVote ?sum"
    by (intro highest_equal) simp
  also have "\<dots> = Max (insert 0 (set (map entryVotes ?sum)))"
    unfolding renderResult_highestVote_def by (simp only: foldl_max set_map)
  also have "\<dots> = Max (insert 0 (?count ` {0..<playerCount s}))"
    by (simp only: counts set_map set_upt)
  also have "\<dots> = Max (?count ` {0..<playerCount s})"
  proof -
    from n have "?count ` {0..<playerCount s} \<noteq> {}" by simp
    then show ?thesis by (simp add: max_def)
  qed
  finally have mx: "?h = Max (?count ` {0..<playerCount s})" .
  let ?tied = "map (\<lambda>i. name (assignments s ! i))
                 (filter (\<lambda>i. ?count i = ?h) [0..<playerCount s])"
  from pos have "map (\<lambda>entry. name (player entry))
                   (filter (\<lambda>entry. entryVotes entry = ?h \<and> ?h > 0) ?sum) = ?tied"
    using n by (simp only: mostVoted_names [of ?h "votes s" "assignments s"])
  then have joined: "mostVoted ?h ?sum = join [0x2C, 0x20] ?tied"
    by (simp only: mostVoted_def)
  from n have "filter (\<lambda>i. ?count i = Max (?count ` {0..<playerCount s})) [0..<playerCount s] \<noteq> []"
    by (intro Max_attained) simp
  with mx have tied_ne: "?tied \<noteq> []" by simp
  have spelled: "mostVoted ?h ?sum = hd ?tied @ concat (map (\<lambda>n. [0x2C, 0x20] @ n) (tl ?tied))"
    by (simp only: joined join_concat [OF tied_ne])
  from tied_ne spelled
  have names: "(let tied = ?tied
                in tied \<noteq> [] \<and>
                   mostVoted ?h ?sum = hd tied @ concat (map (\<lambda>n. [0x2C, 0x20] @ n) (tl tied)))"
    unfolding Let_def by (rule conjI)
  have c1: "map player (voteSummary (computeResultSummary s)) = assignments s"
    using players by (simp only: vs)
  have c2: "map entryVotes (voteSummary (computeResultSummary s))
              = map ?count [0..<playerCount s]"
    using counts by (simp only: vs)
  have c3: "highestVote (computeResultSummary s) = Max (?count ` {0..<playerCount s})"
    using mx by (simp only: hv)
  have c4: "1 \<le> highestVote (computeResultSummary s)"
    using pos by (simp only: hv)
  have c5: "(let tied = map (\<lambda>i. name (assignments s ! i))
                         (filter (\<lambda>i. ?count i = highestVote (computeResultSummary s))
                            [0..<playerCount s])
             in tied \<noteq> [] \<and>
                mostVotedNames (computeResultSummary s)
                  = hd tied @ concat (map (\<lambda>n. [0x2C, 0x20] @ n) (tl tied)))"
    using names by (simp only: hv mv)
  have example: "map entryVotes (voteSummary (computeResultSummary t)) = [0, 2, 1] \<and>
        highestVote (computeResultSummary t) = 2 \<and>
        mostVotedNames (computeResultSummary t) = name a1"
    using assms(3,4)
    by (simp add: computeResultSummary_def Let_def getVoteSummary_def highestVoteOf_def
        occurrences_def mostVoted_def)
  show ?thesis
    by (rule conjI [OF c1 conjI [OF c2 conjI [OF c3 conjI [OF c4 conjI [OF c5 example]]]]])
qed

theorem C5_result_summary_witness:
  "reachable example_tied \<and> stage example_tied = result \<and>
   reachable example_unanimous \<and> stage example_unanimous = result \<and>
   assignments example_finished = example_players \<and>
   votes example_finished = [Some 1, Some 1, Some 2] \<and>
   map entryVotes (voteSummary (computeResultSummary example_tied)) = [1, 1, 1] \<and>
   highestVote (computeResultSummary example_tied) = 1 \<and>
   mostVotedNames (computeResultSummary example_tied)
     = [0x41, 0x2C, 0x20, 0x42, 0x2C, 0x20, 0x43] \<and>
   map entryVotes (voteSummary (computeResultSummary example_unanimous)) = [0, 3, 0] \<and>
   highestVote (computeResultSummary example_unanimous) = 3 \<and>
   mostVotedNames (computeResultSummary example_unanimous) = [0x42] \<and>
   map entryVotes (voteSummary (computeResultSummary example_finished)) = [0, 2, 1] \<and>
   highestVote (computeResultSummary example_finished) = 2 \<and>
   mostVotedNames (computeResultSummary example_finished) = [0x42]"
proof -
  have asg: "assignments example_finished
        = [\<lparr> id' = 0, name = [0x41], isImposter = True, word = None \<rparr>,
           \<lparr> id' = 1, name = [0x42], isImposter = False, word = Some example_word \<rparr>,
           \<lparr> id' = 2, name = [0x43], isImposter = False, word = Some example_word \<rparr>]"
    and vts: "votes example_finished = [Some 1, Some 1, Some 2]"
    by (simp_all add: example_finished_def example_voting_def example_dealt_def
        example_players_def)
  have st1: "stage example_tied = result" and st2: "stage example_unanimous = result"
    by (simp_all add: example_tied_def example_unanimous_def)
  have fields1: "playerCount example_tied = Suc (Suc (Suc 0))"
    "votes example_tied = [Some 1, Some 2, Some 0]"
    "assignments example_tied = example_players"
    by (simp_all add: example_tied_def example_voting_def example_dealt_def)
  have fields2: "playerCount example_unanimous = Suc (Suc (Suc 0))"
    "votes example_unanimous = [Some 1, Some 1, Some 1]"
    "assignments example_unanimous = example_players"
    by (simp_all add: example_unanimous_def example_voting_def example_dealt_def)
  note tie = C5_result_summary [OF reachable_example_tied st1 asg vts]
  note all = C5_result_summary [OF reachable_example_unanimous st2 asg vts]
  from tie have t1: "map entryVotes (voteSummary (computeResultSummary example_tied)) = [1, 1, 1]"
    by (elim conjE) (simp add: fields1)
  from tie have t2: "highestVote (computeResultSummary example_tied) = 1"
    by (elim conjE) (simp add: fields1 atLeast0_lessThan_Suc)
  from tie have "let tied = map (\<lambda>i. name (assignments example_tied ! i))
                      (filter (\<lambda>i. count_list (votes example_tied) (Some (int i))
                                      = highestVote (computeResultSummary example_tied))
                         [0..<playerCount example_tied])
         in tied \<noteq> [] \<and>
            mostVotedNames (computeResultSummary example_tied)
              = hd tied @ concat (map (\<lambda>n. [0x2C, 0x20] @ n) (tl tied))"
    by (elim conjE)
  then have t3: "mostVotedNames (computeResultSummary example_tied)
      = [0x41, 0x2C, 0x20, 0x42, 0x2C, 0x20, 0x43]"
    by (simp add: Let_def t2 fields1 example_players_def)
  from all have u1: "map entryVotes (voteSummary (computeResultSummary example_unanimous)) = [0, 3, 0]"
    by (elim conjE) (simp add: fields2)
  from all have u2: "highestVote (computeResultSummary example_unanimous) = 3"
    by (elim conjE) (simp add: fields2 atLeast0_lessThan_Suc)
  from all have "let tied = map (\<lambda>i. name (assignments example_unanimous ! i))
                      (filter (\<lambda>i. count_list (votes example_unanimous) (Some (int i))
                                      = highestVote (computeResultSummary example_unanimous))
                         [0..<playerCount example_unanimous])
         in tied \<noteq> [] \<and>
            mostVotedNames (computeResultSummary example_unanimous)
              = hd tied @ concat (map (\<lambda>n. [0x2C, 0x20] @ n) (tl tied))"
    by (elim conjE)
  then have u3: "mostVotedNames (computeResultSummary example_unanimous) = [0x42]"
    by (simp add: Let_def u2 fields2 example_players_def)
  from tie have f1: "map entryVotes (voteSummary (computeResultSummary example_finished)) = [0, 2, 1]"
    by (elim conjE)
  from tie have f2: "highestVote (computeResultSummary example_finished) = 2"
    by (elim conjE)
  from tie have f3: "mostVotedNames (computeResultSummary example_finished) = [0x42]"
    by (elim conjE) simp
  from reachable_example_tied reachable_example_unanimous st1 st2 asg vts
    t1 t2 t3 u1 u2 u3 f1 f2 f3
  show ?thesis by (simp add: example_players_def)
qed


text \<open>
  C6. In the reveal stage, while the word of the current player has not been shown, the
  next-player action is answered with the alert to show the word first and leaves the
  session as it is; the reveal cursor stays where it was.
\<close>

theorem C6_next_before_show:
  assumes "stage s = reveal" and "\<not> wordRevealed s"
  shows "on_callback_query RevealNext s = (NotYetRevealed, s)"
  using assms by (simp add: on_callback_query_def handleRevealCallbacks_def)

theorem C6_next_before_show_witness:
  "stage example_dealt = reveal \<and> \<not> wordRevealed example_dealt \<and>
   on_callback_query RevealNext example_dealt = (NotYetRevealed, example_dealt)"
proof -
  have h: "stage example_dealt = reveal" "\<not> wordRevealed example_dealt"
    by (simp_all add: example_dealt_def)
  with C6_next_before_show [OF h] show ?thesis by simp
qed

text \<open>
  C7. While the bot waits for the number of players, an integer below 3 or above 12 is
  answered with the range message and leaves the session as it is; so is 2.
\<close>

theorem C7_player_count_out_of_range:
  assumes "stage s = askPlayerCount" and "n < 3 \<or> n > 12"
  shows "on_text rnd w (Plain (Integer n) toks) s = Some (PlayerCountOutOfRange, s) \<and>
         on_text rnd w (Plain (Integer 2) toks) s = Some (PlayerCountOutOfRange, s)"
  using assms by (auto simp: on_text_def const_defs)

theorem C7_player_count_out_of_range_witness:
  "stage resetSession = askPlayerCount \<and> ((13::int) < 3 \<or> (13::int) > 12) \<and>
   on_text rising_source example_word (Plain (Integer 13) [[0x31, 0x33]]) resetSession
     = Some (PlayerCountOutOfRange, resetSession) \<and>
   on_text rising_source example_word (Plain (Integer 2) [[0x31, 0x33]]) resetSession
     = Some (PlayerCountOutOfRange, resetSession)"
proof -
  have h: "stage resetSession = askPlayerCount" "(13::int) < 3 \<or> (13::int) > 12"
    by (simp_all add: resetSession_def)
  with C7_player_count_out_of_range [OF h] show ?thesis by simp
qed

text \<open>
  C8. While the bot waits for the number of imposters, with at least two players (every
  session the bot can be in has at least three), an integer below 1 or above the number of
  players less one is answered with the range message and leaves the session as it is; so
  is the number of players itself.
\<close>

theorem C8_imposter_count_out_of_range:
  assumes "stage s = askImposterCount" and "2 \<le> playerCount s"
    and "n < 1 \<or> n > int (playerCount s) - 1"
  shows "on_text rnd w (Plain (Integer n) toks) s = Some (ImposterCountOutOfRange, s) \<and>
         on_text rnd w (Plain (Integer (int (playerCount s))) toks) s
           = Some (ImposterCountOutOfRange, s)"
  using assms by (auto simp: on_text_def Let_def getMaxImposters_eq const_defs)

theorem C8_imposter_count_out_of_range_witness:
  "stage example_asking = askImposterCount \<and> 2 \<le> playerCount example_asking \<and>
   ((0::int) < 1 \<or> (0::int) > int (playerCount example_asking) - 1) \<and>
   playerCount example_asking = 3 \<and>
   on_text rising_source example_word (Plain (Integer 0) [[0x30]]) example_asking
     = Some (ImposterCountOutOfRange, example_asking) \<and>
   on_text rising_source example_word (Plain (Integer 3) [[0x30]]) example_asking
     = Some (ImposterCountOutOfRange, example_asking)"
proof -
  have h: "stage example_asking = askImposterCount" "2 \<le> playerCount example_asking"
    "(0::int) < 1 \<or> (0::int) > int (playerCount example_asking) - 1"
    by (simp_all add: example_asking_def)
  have pc: "playerCount example_asking = 3" by (simp add: example_asking_def)
  from C8_imposter_count_out_of_range [OF h, of rising_source example_word "[[0x30]]"] h pc
  show ?thesis by simp
qed

text \<open>
  C9. In the voting stage of a session the bot can be in, after any non-empty sequence of
  selections of valid targets, the session is the one before with the entry of the
  current voter in \<open>votes\<close> set to the last target: one entry for that voter, the last
  selection, and every other entry unchanged.
\<close>

theorem C9_last_selection_wins:
  assumes "reachable s" and "stage s = voting" and "ts \<noteq> []"
    and "\<forall>t \<in> set ts. 0 \<le> t \<and> t < int (playerCount s)"
  shows "run (map (\<lambda>t. CallbackQuery (VoteSelect (Integer t))) ts) s =
           Some (s\<lparr> votes := (votes s)[currentVoterIndex s := Some (last ts)] \<rparr>)"
  using select_run [OF reachable_ok [OF assms(1)] assms(2,4)] assms(3) by simp

theorem C9_last_selection_wins_witness:
  "reachable example_voting \<and> stage example_voting = voting \<and> [2, 0, 1] \<noteq> ([]::int list) \<and>
   (0::int) \<le> 2 \<and> 2 < int (playerCount example_voting) \<and>
   (0::int) \<le> 0 \<and> 0 < int (playerCount example_voting) \<and>
   (0::int) \<le> 1 \<and> 1 < int (playerCount example_voting) \<and>
   run [CallbackQuery (VoteSelect (Integer 2)), CallbackQuery (VoteSelect (Integer 0)),
        CallbackQuery (VoteSelect (Integer 1))] example_voting
     = Some (example_voting\<lparr> votes := [Some 1, Some (- 1), Some (- 1)] \<rparr>)"
proof -
  have st: "stage example_voting = voting"
    and ne: "[2, 0, 1] \<noteq> ([]::int list)"
    and ok: "\<forall>t \<in> set [2, 0, 1]. 0 \<le> t \<and> t < int (playerCount example_voting)"
    by (simp_all add: example_voting_def example_dealt_def)
  have "(votes example_voting)[currentVoterIndex example_voting := Some (last [2, 0, 1])]
        = [Some 1, Some (- 1), Some (- 1)]"
    by (simp add: example_voting_def example_dealt_def)
  with C9_last_selection_wins [OF reachable_example_voting st ne ok]
    reachable_example_voting st ok
  show ?thesis by simp
qed

text \<open>
  C10. When every entry of \<open>votes\<close> is \<open>-1\<close> or the index of a player, the highest vote
  that the bot computes (a fold over the votes cast) is the highest vote that the web
  client computes (the greatest number in the summary per player).
\<close>

theorem C10_highest_vote_agree:
  assumes "\<forall>v \<in> set vs. valid_vote (length players) v"
  shows "highestVoteOf vs = renderResult_highestVote (getVoteSummary vs players)"
  using assms by (rule highest_equal)

theorem C10_highest_vote_agree_witness:
  "valid_vote (length example_players) (Some 1) \<and>
   valid_vote (length example_players) (Some (- 1)) \<and>
   valid_vote (length example_players) (Some 0) \<and>
   highestVoteOf [Some 1, Some (- 1), Some 1, Some 0] = 2 \<and>
   renderResult_highestVote
     (getVoteSummary [Some 1, Some (- 1), Some 1, Some 0] example_players) = 2"
proof -
  have ok: "\<forall>v \<in> set [Some 1, Some (- 1), Some 1, Some 0]. valid_vote (length example_players) v"
    by (simp add: valid_vote_def example_players_def)
  have "highestVoteOf [Some 1, Some (- 1), Some 1, Some 0] = 2"
    by (simp add: highestVoteOf_def occurrences_def)
  with C10_highest_vote_agree [OF ok] ok show ?thesis by simp
qed

end
